theory Spec2Isabelle
  imports Complex_Main "HOL-Library.Sublist" "HOL-Library.AList"
begin

section \<open>Python values used by the SQuAD preprocessing code\<close>

text \<open>
  A Python string is a sequence of Unicode code points; a code point is a natural
  number (the segmenter tests \<open>ord(c) == 0x202F\<close>, which no 8-bit character holds).
\<close>

type_synonym pystr = "nat list"

datatype py_error = IndexError | TypeError | ValueError | AssertionError

text \<open>List indexing \<open>xs[i]\<close>: a negative index counts from the end, an index out of
  range raises \<open>IndexError\<close>.\<close>

definition py_index :: "'a list \<Rightarrow> int \<Rightarrow> py_error + 'a" where
  "py_index xs i =
     (if 0 \<le> i \<and> i < int (length xs) then Inr (xs ! nat i)
      else if i < 0 \<and> - int (length xs) \<le> i then Inr (xs ! nat (int (length xs) + i))
      else Inl IndexError)"

text \<open>Slice bounds: a negative bound counts from the end, and every bound is clipped
  to \<open>[0, len]\<close>; \<open>xs[a:b]\<close> is empty when the clipped bounds cross.\<close>

definition py_clip :: "nat \<Rightarrow> int \<Rightarrow> nat" where
  "py_clip n i = (if i < 0 then nat (int n + i) else min n (nat i))"

definition py_slice :: "'a list \<Rightarrow> int \<Rightarrow> int \<Rightarrow> 'a list" where
  "py_slice xs a b =
     (let lo = py_clip (length xs) a; hi = py_clip (length xs) b
      in take (hi - lo) (drop lo xs))"

text \<open>\<open>' '.join(tokens)\<close>\<close>

fun join_space :: "pystr list \<Rightarrow> pystr" where
  "join_space [] = []"
| "join_space [t] = t"
| "join_space (t # ts) = t @ [32] @ join_space ts"

section \<open>Window splitter (the \<open>doc_spans\<close> loop of \<open>SQuADTransform._transform\<close>)\<close>

text \<open>\<open>_DocSpan\<close>, the named tuple \<open>(start, length)\<close>; its field \<open>length\<close> is
  \<open>span_length\<close> here.\<close>

record DocSpan =
  start :: int
  span_length :: int

text \<open>
  The \<open>while start_offset < len(all_doc_tokens)\<close> loop; \<open>n\<close> is \<open>len(all_doc_tokens)\<close>.
  The loop need not end (\<open>doc_stride = 0\<close>), so not returning is the value \<open>None\<close>.
\<close>

partial_function (option) doc_spans_loop ::
  "int \<Rightarrow> int \<Rightarrow> int \<Rightarrow> int \<Rightarrow> DocSpan list \<Rightarrow> DocSpan list option" where
  "doc_spans_loop n max_tokens_for_doc doc_stride start_offset doc_spans =
     (if start_offset < n then
        (let length0 = n - start_offset;
             length1 = (if length0 > max_tokens_for_doc then max_tokens_for_doc else length0);
             doc_spans' = doc_spans @ [\<lparr>start = start_offset, span_length = length1\<rparr>]
         in if start_offset + length1 = n then Some doc_spans'
            else doc_spans_loop n max_tokens_for_doc doc_stride
                   (start_offset + min length1 doc_stride) doc_spans')
      else Some doc_spans)"

declare doc_spans_loop.simps [code]

definition split_windows :: "int \<Rightarrow> int \<Rightarrow> int \<Rightarrow> DocSpan list option" where
  "split_windows n max_tokens_for_doc doc_stride =
     doc_spans_loop n max_tokens_for_doc doc_stride 0 []"

text \<open>
  The same loop with a budget of iterations: each unit of \<open>fuel\<close> pays for one run of
  the loop body, and \<open>None\<close> says that the budget ran out before the loop ended.
\<close>

fun doc_spans_bounded ::
  "nat \<Rightarrow> int \<Rightarrow> int \<Rightarrow> int \<Rightarrow> int \<Rightarrow> DocSpan list \<Rightarrow> DocSpan list option" where
  "doc_spans_bounded fuel n max_tokens_for_doc doc_stride start_offset doc_spans =
     (if start_offset < n then
        (case fuel of
           0 \<Rightarrow> None
         | Suc fuel' \<Rightarrow>
            (let length0 = n - start_offset;
                 length1 = (if length0 > max_tokens_for_doc then max_tokens_for_doc else length0);
                 doc_spans' = doc_spans @ [\<lparr>start = start_offset, span_length = length1\<rparr>]
             in if start_offset + length1 = n then Some doc_spans'
                else doc_spans_bounded fuel' n max_tokens_for_doc doc_stride
                       (start_offset + min length1 doc_stride) doc_spans'))
      else Some doc_spans)"

declare doc_spans_bounded.simps [simp del]

text \<open>The last index a window covers, and whether a window contains a position.\<close>

definition span_end :: "DocSpan \<Rightarrow> int" where
  "span_end w = start w + span_length w - 1"

definition span_contains :: "DocSpan \<Rightarrow> int \<Rightarrow> bool" where
  "span_contains w p = (start w \<le> p \<and> p \<le> span_end w)"

section \<open>Max-context resolver (\<open>_check_is_max_context\<close>)\<close>

text \<open>
  Python's \<open>float\<close> is the IEEE 754 binary64 format. A double is modelled by the
  rational number it denotes. \<open>double_round\<close> rounds a rational to the nearest number
  with a significand of 53 bits, ties to the even significand, as every binary64
  operation and every conversion of an integer does. The exponent is not bounded: the
  model is binary64 wherever nothing overflows or underflows, which holds for the score
  of any window shorter than \<open>2^63\<close>.
\<close>

text \<open>The number of bits of a positive integer (\<open>int.bit_length\<close>).\<close>

function bit_length :: "int \<Rightarrow> int" where
  "bit_length a = (if a \<le> 0 then 0 else 1 + bit_length (a div 2))"
  by pat_completeness auto
termination
  by (relation "measure nat") auto

declare bit_length.simps [simp del]

definition pow2 :: "int \<Rightarrow> rat" where
  "pow2 e = (if 0 \<le> e then 2 ^ nat e else 1 / 2 ^ nat (- e))"

text \<open>For \<open>x > 0\<close>, the exponent \<open>e\<close> with \<open>2^e \<le> x < 2^(e+1)\<close>: for \<open>x = a / b\<close> it
  is the difference \<open>d\<close> of the bit lengths of \<open>a\<close> and \<open>b\<close>, or \<open>d - 1\<close>.\<close>

definition binary_exponent :: "rat \<Rightarrow> int" where
  "binary_exponent x =
     (case quotient_of x of
        (a, b) \<Rightarrow> (let d = bit_length a - bit_length b in if pow2 d \<le> x then d else d - 1))"

definition round_half_even :: "rat \<Rightarrow> int" where
  "round_half_even q =
     (let f = \<lfloor>q\<rfloor>; r = q - of_int f
      in if r < 1 / 2 then f else if 1 / 2 < r then f + 1 else if even f then f else f + 1)"

definition double_round :: "rat \<Rightarrow> rat" where
  "double_round x =
     (if x = 0 then 0
      else (let a = \<bar>x\<bar>; ulp = pow2 (binary_exponent a - 52)
            in sgn x * of_int (round_half_even (a / ulp)) * ulp))"

text \<open>The conversion of an integer operand, the product and the sum of two doubles.\<close>

definition double_of_int :: "int \<Rightarrow> rat" where
  "double_of_int i = double_round (of_int i)"

definition double_mul :: "rat \<Rightarrow> rat \<Rightarrow> rat" where
  "double_mul x y = double_round (x * y)"

definition double_add :: "rat \<Rightarrow> rat \<Rightarrow> rat" where
  "double_add x y = double_round (x + y)"

text \<open>
  \<open>score = min(num_left_context, num_right_context) + 0.01 * doc_span.length\<close>, for
  \<open>m = min(num_left_context, num_right_context)\<close>: the literal \<open>0.01\<close> is the double
  nearest to \<open>1/100\<close>, the product converts the length, the sum converts \<open>m\<close>.
\<close>

definition float_score :: "int \<Rightarrow> int \<Rightarrow> rat" where
  "float_score m len =
     double_add (double_of_int m) (double_mul (double_round (1 / 100)) (double_of_int len))"

text \<open>
  The resolver below takes the computation of the score as its parameter \<open>sc\<close>; the
  code is the resolver at \<open>sc = float_score\<close>. All the loop does with a score is
  compare it by \<open>>\<close>.
\<close>

text \<open>The formula of the specification read in exact arithmetic. The code does not
  compute it.\<close>

definition spec_score :: "int \<Rightarrow> int \<Rightarrow> rat" where
  "spec_score m len = of_int m + of_int len / 100"

text \<open>The body of the \<open>for (span_index, doc_span) in enumerate(doc_spans)\<close> loop;
  \<open>best\<close> holds \<open>(best_score, best_span_index)\<close>, \<open>None\<close> while both are unset.\<close>

definition max_context_step ::
  "(int \<Rightarrow> int \<Rightarrow> 'a::linorder) \<Rightarrow> int \<Rightarrow> nat \<times> DocSpan \<Rightarrow> ('a \<times> nat) option
     \<Rightarrow> ('a \<times> nat) option" where
  "max_context_step sc position x best =
     (case x of (span_index, doc_span) \<Rightarrow>
        (let end = start doc_span + span_length doc_span - 1
         in if position < start doc_span then best
            else if position > end then best
            else (let num_left_context = position - start doc_span;
                      num_right_context = end - position;
                      score = sc (min num_left_context num_right_context)
                                 (span_length doc_span)
                  in case best of
                       None \<Rightarrow> Some (score, span_index)
                     | Some (best_score, best_span_index) \<Rightarrow>
                         if score > best_score then Some (score, span_index)
                         else Some (best_score, best_span_index))))"

fun max_context_loop ::
  "(int \<Rightarrow> int \<Rightarrow> 'a::linorder) \<Rightarrow> int \<Rightarrow> (nat \<times> DocSpan) list \<Rightarrow> ('a \<times> nat) option
     \<Rightarrow> ('a \<times> nat) option" where
  "max_context_loop sc position [] best = best"
| "max_context_loop sc position (x # rest) best =
     max_context_loop sc position rest (max_context_step sc position x best)"

text \<open>\<open>return cur_span_index == best_span_index\<close>; an unset \<open>best_span_index\<close>
  (\<open>None\<close>) equals no index.\<close>

definition check_is_max_context ::
  "(int \<Rightarrow> int \<Rightarrow> 'a::linorder) \<Rightarrow> DocSpan list \<Rightarrow> nat \<Rightarrow> int \<Rightarrow> bool" where
  "check_is_max_context sc doc_spans cur_span_index position =
     (case max_context_loop sc position (enumerate 0 doc_spans) None of
        None \<Rightarrow> False
      | Some (best_score, best_span_index) \<Rightarrow> cur_span_index = best_span_index)"

text \<open>The score of a window at a position, as the resolver computes it.\<close>

definition span_score :: "(int \<Rightarrow> int \<Rightarrow> 'a::linorder) \<Rightarrow> DocSpan \<Rightarrow> int \<Rightarrow> 'a" where
  "span_score sc w p = sc (min (p - start w) (span_end w - p)) (span_length w)"

section \<open>Span aligner (\<open>_improve_answer_span\<close>)\<close>

text \<open>The inner loop \<open>for new_end in range(input_end, new_start - 1, -1)\<close>, entered
  with \<open>new_end = input_end\<close>; \<open>None\<close> says that it ended without returning.\<close>

function improve_inner :: "pystr list \<Rightarrow> pystr \<Rightarrow> int \<Rightarrow> int \<Rightarrow> (int \<times> int) option" where
  "improve_inner doc_tokens tok_answer_text new_start new_end =
     (if new_end > new_start - 1 then
        (let text_span = join_space (py_slice doc_tokens new_start (new_end + 1))
         in if text_span = tok_answer_text then Some (new_start, new_end)
            else improve_inner doc_tokens tok_answer_text new_start (new_end - 1))
      else None)"
  by pat_completeness auto
termination
  by (relation "measure (\<lambda>(d, t, s, e). nat (e - s + 1))") auto

text \<open>The outer loop \<open>for new_start in range(input_start, input_end + 1)\<close>.\<close>

function improve_outer :: "pystr list \<Rightarrow> pystr \<Rightarrow> int \<Rightarrow> int \<Rightarrow> (int \<times> int) option" where
  "improve_outer doc_tokens tok_answer_text input_end new_start =
     (if new_start < input_end + 1 then
        (case improve_inner doc_tokens tok_answer_text new_start input_end of
           Some r \<Rightarrow> Some r
         | None \<Rightarrow> improve_outer doc_tokens tok_answer_text input_end (new_start + 1))
      else None)"
  by pat_completeness auto
termination
  by (relation "measure (\<lambda>(d, t, e, s). nat (e - s + 1))") auto

declare improve_inner.simps [simp del]
declare improve_outer.simps [simp del]

definition improve_answer_span ::
  "pystr list \<Rightarrow> int \<Rightarrow> int \<Rightarrow> (pystr \<Rightarrow> pystr list) \<Rightarrow> pystr \<Rightarrow> int \<times> int" where
  "improve_answer_span doc_tokens input_start input_end tokenizer orig_answer_text =
     (let tok_answer_text = join_space (tokenizer orig_answer_text)
      in case improve_outer doc_tokens tok_answer_text input_end input_start of
           Some r \<Rightarrow> r
         | None \<Rightarrow> (input_start, input_end))"

text \<open>
  The aligner as the specification words it: the sub-spans \<open>[s, e]\<close> with
  \<open>input_start \<le> s \<le> e \<le> input_end\<close>, \<open>s\<close> ascending and for each \<open>s\<close> the end \<open>e\<close>
  descending from \<open>input_end\<close>; the first one whose space-joined sub-tokens equal the
  target, and the span unchanged when there is none.
\<close>

definition span_candidates :: "int \<Rightarrow> int \<Rightarrow> (int \<times> int) list" where
  "span_candidates input_start input_end =
     concat (map (\<lambda>s. map (\<lambda>e. (s, e)) (rev [s..input_end])) [input_start..input_end])"

definition sub_span_text :: "pystr list \<Rightarrow> int \<times> int \<Rightarrow> pystr" where
  "sub_span_text doc_tokens se = join_space (py_slice doc_tokens (fst se) (snd se + 1))"

definition spec_improve_answer_span ::
  "pystr list \<Rightarrow> int \<Rightarrow> int \<Rightarrow> (pystr \<Rightarrow> pystr list) \<Rightarrow> pystr \<Rightarrow> int \<times> int" where
  "spec_improve_answer_span doc_tokens input_start input_end tokenizer orig_answer_text =
     (let target = join_space (tokenizer orig_answer_text)
      in case find (\<lambda>se. sub_span_text doc_tokens se = target)
                (span_candidates input_start input_end) of
           Some se \<Rightarrow> se
         | None \<Rightarrow> (input_start, input_end))"

section \<open>The transform (\<open>SQuADTransform._transform\<close>)\<close>

text \<open>
  Modelled from the spec: the tokenizer (\<open>BERTTokenizer\<close>, not among the sources) is the
  capability \<open>tokenize(text) -> ordered sequence of sub-tokens\<close> and
  \<open>ids(tokens) -> ordered sequence of integers\<close>, one id for each token. Both are
  parameters of the model.
\<close>

record Tokenizer =
  tokenize :: "pystr \<Rightarrow> pystr list"
  token_id :: "pystr \<Rightarrow> int"

definition convert_tokens_to_ids :: "Tokenizer \<Rightarrow> pystr list \<Rightarrow> int list" where
  "convert_tokens_to_ids tk ts = map (token_id tk) ts"

text \<open>\<open>'[CLS]'\<close> and \<open>'[SEP]'\<close>\<close>

definition CLS :: pystr where
  "CLS = [91, 67, 76, 83, 93]"

definition SEP :: pystr where
  "SEP = [91, 83, 69, 80, 93]"

text \<open>\<open>SquadExample\<close>; \<open>None\<close> is Python's \<open>None\<close>, the default of the three answer
  fields.\<close>

record SquadExample =
  qas_id :: pystr
  question_text :: pystr
  doc_tokens :: "pystr list"
  example_id :: int
  orig_answer_text :: "pystr option"
  start_position :: "int option"
  end_position :: "int option"
  is_impossible :: bool

text \<open>\<open>SquadFeature\<close>; the two dictionaries are association lists in insertion order.
  The fields copied from the example carry the prefix \<open>feat\<close>.\<close>

record SquadFeature =
  feat_example_id :: int
  feat_qas_id :: pystr
  feat_doc_tokens :: "pystr list"
  doc_span_index :: nat
  tokens :: "pystr list"
  token_to_orig_map :: "(nat \<times> nat) list"
  token_is_max_context :: "(nat \<times> bool) list"
  input_ids :: "int list"
  valid_length :: nat
  segment_ids :: "int list"
  feat_start_position :: int
  feat_end_position :: int
  feat_is_impossible :: bool

record SQuADTransform =
  tokenizer :: Tokenizer
  max_seq_length :: int
  doc_stride :: int
  max_query_length :: int
  is_training :: bool

text \<open>The query: \<open>tokenizer(example.question_text)\<close>, cut to
  \<open>query_tokens[0:max_query_length]\<close> when longer.\<close>

definition query_tokens :: "SQuADTransform \<Rightarrow> SquadExample \<Rightarrow> pystr list" where
  "query_tokens cfg ex =
     (let q = tokenize (tokenizer cfg) (question_text ex)
      in if int (length q) > max_query_length cfg then py_slice q 0 (max_query_length cfg)
         else q)"

text \<open>The loop over \<open>enumerate(example.doc_tokens)\<close> and its inner loop over the
  sub-tokens of one word. The state is
  \<open>(tok_to_orig_index, orig_to_tok_index, all_doc_tokens)\<close>.\<close>

fun sub_token_loop :: "nat \<Rightarrow> pystr list \<Rightarrow> nat list \<times> pystr list \<Rightarrow> nat list \<times> pystr list" where
  "sub_token_loop i [] st = st"
| "sub_token_loop i (sub_token # rest) st =
     sub_token_loop i rest (fst st @ [i], snd st @ [sub_token])"

fun doc_token_loop ::
  "(pystr \<Rightarrow> pystr list) \<Rightarrow> nat \<Rightarrow> pystr list \<Rightarrow> nat list \<times> nat list \<times> pystr list
     \<Rightarrow> nat list \<times> nat list \<times> pystr list" where
  "doc_token_loop tk i [] st = st"
| "doc_token_loop tk i (token # rest) st =
     (case st of (t2o, o2t, adt) \<Rightarrow>
        (let o2t' = o2t @ [length adt];
             sub_tokens = tk token
         in case sub_token_loop i sub_tokens (t2o, adt) of
              (t2o', adt') \<Rightarrow> doc_token_loop tk (Suc i) rest (t2o', o2t', adt')))"

definition sub_tokenize ::
  "SQuADTransform \<Rightarrow> SquadExample \<Rightarrow> nat list \<times> nat list \<times> pystr list" where
  "sub_tokenize cfg ex =
     doc_token_loop (tokenize (tokenizer cfg)) 0 (doc_tokens ex) ([], [], [])"

definition tok_to_orig_index :: "SQuADTransform \<Rightarrow> SquadExample \<Rightarrow> nat list" where
  "tok_to_orig_index cfg ex = fst (sub_tokenize cfg ex)"

definition orig_to_tok_index :: "SQuADTransform \<Rightarrow> SquadExample \<Rightarrow> nat list" where
  "orig_to_tok_index cfg ex = fst (snd (sub_tokenize cfg ex))"

definition all_doc_tokens :: "SQuADTransform \<Rightarrow> SquadExample \<Rightarrow> pystr list" where
  "all_doc_tokens cfg ex = snd (snd (sub_tokenize cfg ex))"

text \<open>
  \<open>(tok_start_position, tok_end_position)\<close>: \<open>-1\<close> for an impossible training example,
  the aligned answer span for an answerable one, \<open>None\<close> outside training. Indexing
  with \<open>None\<close>, comparing \<open>None\<close> with an integer and tokenizing \<open>None\<close> raise.
\<close>

definition tok_positions ::
  "SQuADTransform \<Rightarrow> SquadExample \<Rightarrow> py_error + (int option \<times> int option)" where
  "tok_positions cfg ex =
     (if is_training cfg \<and> \<not> is_impossible ex then
        (case start_position ex of
           None \<Rightarrow> Inl TypeError
         | Some sp \<Rightarrow>
            (case py_index (orig_to_tok_index cfg ex) sp of
               Inl e \<Rightarrow> Inl e
             | Inr ts \<Rightarrow>
                (case end_position ex of
                   None \<Rightarrow> Inl TypeError
                 | Some ep \<Rightarrow>
                    (case (if ep < int (length (doc_tokens ex)) - 1
                           then (case py_index (orig_to_tok_index cfg ex) (ep + 1) of
                                   Inl e \<Rightarrow> Inl e
                                 | Inr v \<Rightarrow> Inr (int v - 1))
                           else Inr (int (length (all_doc_tokens cfg ex)) - 1)) of
                       Inl e \<Rightarrow> Inl e
                     | Inr te \<Rightarrow>
                        (case orig_answer_text ex of
                           None \<Rightarrow> Inl TypeError
                         | Some a \<Rightarrow>
                            (case improve_answer_span (all_doc_tokens cfg ex) (int ts) te
                                    (tokenize (tokenizer cfg)) a of
                               (s, e) \<Rightarrow> Inr (Some s, Some e)))))))
      else if is_training cfg \<and> is_impossible ex then Inr (Some (- 1), Some (- 1))
      else Inr (None, None))"

text \<open>\<open>max_tokens_for_doc = self.max_seq_length - len(query_tokens) - 3\<close>\<close>

definition max_tokens_for_doc :: "SQuADTransform \<Rightarrow> SquadExample \<Rightarrow> int" where
  "max_tokens_for_doc cfg ex = max_seq_length cfg - int (length (query_tokens cfg ex)) - 3"

definition doc_spans :: "SQuADTransform \<Rightarrow> SquadExample \<Rightarrow> DocSpan list option" where
  "doc_spans cfg ex =
     split_windows (int (length (all_doc_tokens cfg ex))) (max_tokens_for_doc cfg ex)
       (doc_stride cfg)"

text \<open>\<open>for token in query_tokens\<close>, on \<open>(tokens, segment_ids)\<close>.\<close>

fun query_loop :: "pystr list \<Rightarrow> pystr list \<times> int list \<Rightarrow> pystr list \<times> int list" where
  "query_loop [] st = st"
| "query_loop (token # rest) st = query_loop rest (fst st @ [token], snd st @ [0])"

text \<open>\<open>for i in range(doc_span.length)\<close>, on
  \<open>(tokens, token_to_orig_map, token_is_max_context, segment_ids)\<close>.\<close>

fun doc_position_loop ::
  "(int \<Rightarrow> int \<Rightarrow> 'a::linorder) \<Rightarrow> nat list \<Rightarrow> pystr list \<Rightarrow> DocSpan list \<Rightarrow> nat \<Rightarrow> DocSpan
     \<Rightarrow> nat list
     \<Rightarrow> pystr list \<times> (nat \<times> nat) list \<times> (nat \<times> bool) list \<times> int list
     \<Rightarrow> py_error + pystr list \<times> (nat \<times> nat) list \<times> (nat \<times> bool) list \<times> int list" where
  "doc_position_loop sc t2o adt spans span_index doc_span [] st = Inr st"
| "doc_position_loop sc t2o adt spans span_index doc_span (i # rest) st =
     (case st of (toks, tom, tmc, segs) \<Rightarrow>
        (let split_token_index = start doc_span + int i
         in case py_index t2o split_token_index of
              Inl e \<Rightarrow> Inl e
            | Inr orig \<Rightarrow>
               (let tom' = AList.update (length toks) orig tom;
                    is_max_context =
                      check_is_max_context sc spans span_index split_token_index;
                    tmc' = AList.update (length toks) is_max_context tmc
                in case py_index adt split_token_index of
                     Inl e \<Rightarrow> Inl e
                   | Inr tok \<Rightarrow>
                       doc_position_loop sc t2o adt spans span_index doc_span rest
                         (toks @ [tok], tom', tmc', segs @ [1]))))"

text \<open>\<open>while len(input_ids) < self.max_seq_length\<close>, on \<open>(input_ids, segment_ids)\<close>.\<close>

function pad_loop :: "int \<Rightarrow> int list \<times> int list \<Rightarrow> int list \<times> int list" where
  "pad_loop msl st =
     (if int (length (fst st)) < msl then pad_loop msl (fst st @ [0], snd st @ [0]) else st)"
  by pat_completeness auto
termination
  by (relation "measure (\<lambda>(msl, st). nat (msl - int (length (fst st))))") auto

declare pad_loop.simps [simp del]

text \<open>The labels of one feature. \<open>and\<close> does not evaluate its right operand when the
  left one is false.\<close>

definition label_positions ::
  "SQuADTransform \<Rightarrow> SquadExample \<Rightarrow> int option \<Rightarrow> int option \<Rightarrow> DocSpan \<Rightarrow> py_error + int \<times> int" where
  "label_positions cfg ex tok_start_position tok_end_position doc_span =
     (case (if is_training cfg \<and> \<not> is_impossible ex then
              (let doc_start = start doc_span;
                   doc_end = start doc_span + span_length doc_span - 1
               in case tok_start_position of
                    None \<Rightarrow> Inl TypeError
                  | Some ts \<Rightarrow>
                     if \<not> ts \<ge> doc_start then Inr (0, 0)
                     else (case tok_end_position of
                             None \<Rightarrow> Inl TypeError
                           | Some te \<Rightarrow>
                              if \<not> te \<le> doc_end then Inr (0, 0)
                              else (let doc_offset = int (length (query_tokens cfg ex)) + 2
                                    in Inr (ts - doc_start + doc_offset,
                                            te - doc_start + doc_offset))))
            else Inr (0, 0)) of
        Inl e \<Rightarrow> Inl e
      | Inr se \<Rightarrow> if is_training cfg \<and> is_impossible ex then Inr (0, 0) else Inr se)"

text \<open>The body of \<open>for (doc_span_index, doc_span) in enumerate(doc_spans)\<close>.\<close>

definition make_feature ::
  "(int \<Rightarrow> int \<Rightarrow> 'a::linorder) \<Rightarrow> SQuADTransform \<Rightarrow> SquadExample \<Rightarrow> int option \<Rightarrow> int option
     \<Rightarrow> DocSpan list \<Rightarrow> nat \<Rightarrow> DocSpan \<Rightarrow> py_error + SquadFeature" where
  "make_feature sc cfg ex tok_start_position tok_end_position spans span_index doc_span =
     (case query_loop (query_tokens cfg ex) ([CLS], [0]) of
        (toks0, segs0) \<Rightarrow>
         (case doc_position_loop sc (tok_to_orig_index cfg ex) (all_doc_tokens cfg ex)
                 spans span_index doc_span [0..<nat (span_length doc_span)]
                 (toks0 @ [SEP], [], [], segs0 @ [0]) of
            Inl e \<Rightarrow> Inl e
          | Inr (toks1, tom, tmc, segs1) \<Rightarrow>
             (let toks = toks1 @ [SEP];
                  segs2 = segs1 @ [1];
                  ids = convert_tokens_to_ids (tokenizer cfg) toks
              in case pad_loop (max_seq_length cfg) (ids, segs2) of
                   (ids', segs') \<Rightarrow>
                    if int (length ids') \<noteq> max_seq_length cfg then Inl AssertionError
                    else if int (length segs') \<noteq> max_seq_length cfg then Inl AssertionError
                    else (case label_positions cfg ex tok_start_position tok_end_position
                                 doc_span of
                            Inl e \<Rightarrow> Inl e
                          | Inr se \<Rightarrow>
                             Inr \<lparr>feat_example_id = example_id ex,
                                  feat_qas_id = qas_id ex,
                                  feat_doc_tokens = doc_tokens ex,
                                  doc_span_index = span_index,
                                  tokens = toks,
                                  token_to_orig_map = tom,
                                  token_is_max_context = tmc,
                                  input_ids = ids',
                                  valid_length = length ids,
                                  segment_ids = segs',
                                  feat_start_position = fst se,
                                  feat_end_position = snd se,
                                  feat_is_impossible = is_impossible ex\<rparr>))))"

fun feature_loop ::
  "(int \<Rightarrow> int \<Rightarrow> 'a::linorder) \<Rightarrow> SQuADTransform \<Rightarrow> SquadExample \<Rightarrow> int option \<Rightarrow> int option
     \<Rightarrow> DocSpan list \<Rightarrow> (nat \<times> DocSpan) list \<Rightarrow> SquadFeature list
     \<Rightarrow> py_error + SquadFeature list" where
  "feature_loop sc cfg ex ts te spans [] features = Inr features"
| "feature_loop sc cfg ex ts te spans (x # rest) features =
     (case make_feature sc cfg ex ts te spans (fst x) (snd x) of
        Inl e \<Rightarrow> Inl e
      | Inr feature \<Rightarrow> feature_loop sc cfg ex ts te spans rest (features @ [feature]))"

text \<open>
  \<open>_transform\<close>: \<open>None\<close> when the window loop does not end, \<open>Some (Inl e)\<close> when
  an exception \<open>e\<close> is raised, \<open>Some (Inr features)\<close> when the list is returned.
\<close>

definition transform ::
  "(int \<Rightarrow> int \<Rightarrow> 'a::linorder) \<Rightarrow> SQuADTransform \<Rightarrow> SquadExample
     \<Rightarrow> (py_error + SquadFeature list) option" where
  "transform sc cfg ex =
     (case tok_positions cfg ex of
        Inl e \<Rightarrow> Some (Inl e)
      | Inr (ts, te) \<Rightarrow>
         (case doc_spans cfg ex of
            None \<Rightarrow> None
          | Some spans \<Rightarrow>
              Some (feature_loop sc cfg ex ts te spans (enumerate 0 spans) [])))"

text \<open>The shape of a feature built for the window \<open>w\<close>.\<close>

definition feature_shape :: "SQuADTransform \<Rightarrow> SquadExample \<Rightarrow> DocSpan \<Rightarrow> SquadFeature \<Rightarrow> bool" where
  "feature_shape cfg ex w f =
     (let q = length (query_tokens cfg ex); len = nat (span_length w)
      in valid_length f = q + len + 3
         \<and> int (valid_length f) \<le> max_seq_length cfg
         \<and> int (length (input_ids f)) = max_seq_length cfg
         \<and> int (length (segment_ids f)) = max_seq_length cfg
         \<and> segment_ids f = replicate (q + 2) 0 @ replicate (len + 1) 1
              @ replicate (nat (max_seq_length cfg) - valid_length f) 0)"

section \<open>Example builder (\<open>SQuAD._read\<close>)\<close>

text \<open>The whitespace of the segmenter (\<open>is_whitespace\<close>): space, tab, CR, LF and
  U+202F.\<close>

definition is_whitespace :: "nat \<Rightarrow> bool" where
  "is_whitespace c = (c = 32 \<or> c = 9 \<or> c = 13 \<or> c = 10 \<or> c = 8239)"

text \<open>The whitespace of Python's \<open>str.strip()\<close> and \<open>str.split()\<close>.\<close>

definition py_isspace :: "nat \<Rightarrow> bool" where
  "py_isspace c = ((9 \<le> c \<and> c \<le> 13) \<or> (28 \<le> c \<and> c \<le> 32) \<or> c = 133 \<or> c = 160
                   \<or> c = 5760 \<or> (8192 \<le> c \<and> c \<le> 8202) \<or> c = 8232 \<or> c = 8233
                   \<or> c = 8239 \<or> c = 8287 \<or> c = 12288)"

definition py_strip :: "pystr \<Rightarrow> pystr" where
  "py_strip s = rev (dropWhile py_isspace (rev (dropWhile py_isspace s)))"

text \<open>\<open>str.split()\<close>: the maximal runs of non-whitespace; \<open>cur\<close> is the run being
  read.\<close>

fun py_split_from :: "pystr \<Rightarrow> pystr \<Rightarrow> pystr list" where
  "py_split_from cur [] = (if cur = [] then [] else [cur])"
| "py_split_from cur (c # cs) =
     (if py_isspace c then (if cur = [] then py_split_from [] cs
                            else cur # py_split_from [] cs)
      else py_split_from (cur @ [c]) cs)"

definition py_split :: "pystr \<Rightarrow> pystr list" where
  "py_split s = py_split_from [] s"

text \<open>\<open>s.find(sub)\<close>: the lowest index at which \<open>sub\<close> occurs in \<open>s\<close>, or \<open>-1\<close>.\<close>

fun py_find_from :: "pystr \<Rightarrow> pystr \<Rightarrow> int \<Rightarrow> int" where
  "py_find_from sub [] i = (if sub = [] then i else - 1)"
| "py_find_from sub (c # cs) i =
     (if prefix sub (c # cs) then i else py_find_from sub cs (i + 1))"

definition py_find :: "pystr \<Rightarrow> pystr \<Rightarrow> int" where
  "py_find s sub = py_find_from sub s 0"

definition whitespace_tokenize :: "pystr \<Rightarrow> pystr list" where
  "whitespace_tokenize txt =
     (let stripped = py_strip txt in if stripped = [] then [] else py_split stripped)"

text \<open>The input: \<open>json.load(reader)['data']\<close> is a list of entries, an entry holds
  its list of paragraphs, a paragraph its context and its question records.\<close>

record Answer =
  answer_text :: pystr
  answer_start :: int

record QA =
  qa_id :: pystr
  question :: pystr
  answers :: "Answer list"
  qa_is_impossible :: bool

record Paragraph =
  paragraph_context :: pystr
  qas :: "QA list"

record SQuAD =
  read_is_training :: bool
  version_2 :: bool

text \<open>
  The loop \<open>for c in paragraph_text\<close> on
  \<open>(doc_tokens, char_to_word_offset, prev_is_whitespace)\<close>. \<open>doc_tokens[-1] += c\<close>
  raises on an empty list.
\<close>

fun segment_loop ::
  "pystr \<Rightarrow> pystr list \<times> int list \<times> bool \<Rightarrow> py_error + pystr list \<times> int list \<times> bool" where
  "segment_loop [] st = Inr st"
| "segment_loop (c # cs) st =
     (case st of (dt, c2w, prev_is_whitespace) \<Rightarrow>
        (case (if is_whitespace c then Inr (dt, True)
               else if prev_is_whitespace then Inr (dt @ [[c]], False)
               else if dt = [] then Inl IndexError
               else Inr (butlast dt @ [last dt @ [c]], False)) of
           Inl e \<Rightarrow> Inl e
         | Inr (dt', prev') \<Rightarrow> segment_loop cs (dt', c2w @ [int (length dt') - 1], prev')))"

definition segment :: "pystr \<Rightarrow> py_error + pystr list \<times> int list \<times> bool" where
  "segment paragraph_text = segment_loop paragraph_text ([], [], True)"

text \<open>
  The body of \<open>for qa in paragraph['qas']\<close> up to the construction of the example:
  \<open>Inr None\<close> is the \<open>continue\<close> of a dropped question, \<open>eid\<close> the current value of
  the counter \<open>example_id\<close>.
\<close>

definition read_qa ::
  "SQuAD \<Rightarrow> pystr list \<Rightarrow> int list \<Rightarrow> QA \<Rightarrow> int \<Rightarrow> py_error + SquadExample option" where
  "read_qa cfg dt c2w qa eid =
     (if read_is_training cfg then
        (let imp = (if version_2 cfg then qa_is_impossible qa else False)
         in if length (answers qa) \<noteq> 1 \<and> \<not> imp then Inl ValueError
            else if \<not> imp then
              (case py_index (answers qa) 0 of
                 Inl e \<Rightarrow> Inl e
               | Inr answer \<Rightarrow>
                  (let answer_offset = answer_start answer;
                       answer_length = int (length (answer_text answer))
                   in case py_index c2w answer_offset of
                        Inl e \<Rightarrow> Inl e
                      | Inr sp \<Rightarrow>
                         (case py_index c2w (answer_offset + answer_length - 1) of
                            Inl e \<Rightarrow> Inl e
                          | Inr ep \<Rightarrow>
                             (let actual_text = join_space (py_slice dt sp (ep + 1));
                                  cleaned_answer_text =
                                    join_space (whitespace_tokenize (answer_text answer))
                              in if py_find actual_text cleaned_answer_text = - 1 then Inr None
                                 else Inr (Some
                                   \<lparr>qas_id = qa_id qa, question_text = question qa,
                                    doc_tokens = dt, example_id = eid,
                                    orig_answer_text = Some (answer_text answer),
                                    start_position = Some sp, end_position = Some ep,
                                    is_impossible = imp\<rparr>)))))
            else Inr (Some
                   \<lparr>qas_id = qa_id qa, question_text = question qa, doc_tokens = dt,
                    example_id = eid, orig_answer_text = Some [],
                    start_position = Some (- 1), end_position = Some (- 1),
                    is_impossible = imp\<rparr>))
      else Inr (Some
             \<lparr>qas_id = qa_id qa, question_text = question qa, doc_tokens = dt,
              example_id = eid, orig_answer_text = None, start_position = None,
              end_position = None, is_impossible = False\<rparr>))"

text \<open>The three nested loops on \<open>(examples, example_id)\<close>.\<close>

fun qa_loop ::
  "SQuAD \<Rightarrow> pystr list \<Rightarrow> int list \<Rightarrow> QA list \<Rightarrow> SquadExample list \<times> int
     \<Rightarrow> py_error + SquadExample list \<times> int" where
  "qa_loop cfg dt c2w [] st = Inr st"
| "qa_loop cfg dt c2w (qa # rest) st =
     (case read_qa cfg dt c2w qa (snd st) of
        Inl e \<Rightarrow> Inl e
      | Inr None \<Rightarrow> qa_loop cfg dt c2w rest st
      | Inr (Some example) \<Rightarrow> qa_loop cfg dt c2w rest (fst st @ [example], snd st + 1))"

fun paragraph_loop ::
  "SQuAD \<Rightarrow> Paragraph list \<Rightarrow> SquadExample list \<times> int \<Rightarrow> py_error + SquadExample list \<times> int" where
  "paragraph_loop cfg [] st = Inr st"
| "paragraph_loop cfg (paragraph # rest) st =
     (case segment (paragraph_context paragraph) of
        Inl e \<Rightarrow> Inl e
      | Inr (dt, c2w, prev) \<Rightarrow>
         (case qa_loop cfg dt c2w (qas paragraph) st of
            Inl e \<Rightarrow> Inl e
          | Inr st' \<Rightarrow> paragraph_loop cfg rest st'))"

fun entry_loop ::
  "SQuAD \<Rightarrow> Paragraph list list \<Rightarrow> SquadExample list \<times> int
     \<Rightarrow> py_error + SquadExample list \<times> int" where
  "entry_loop cfg [] st = Inr st"
| "entry_loop cfg (entry # rest) st =
     (case paragraph_loop cfg entry st of
        Inl e \<Rightarrow> Inl e
      | Inr st' \<Rightarrow> entry_loop cfg rest st')"

definition read :: "SQuAD \<Rightarrow> Paragraph list list \<Rightarrow> py_error + SquadExample list" where
  "read cfg input_data =
     (case entry_loop cfg input_data ([], 0) of Inl e \<Rightarrow> Inl e | Inr st \<Rightarrow> Inr (fst st))"




text \<open>The state \<open>(examples, example_id)\<close> of the reader's loops has dense ids: the
  counter is the number of examples and example \<open>i\<close> has id \<open>i\<close>.\<close>

definition dense_ids :: "SquadExample list \<times> int \<Rightarrow> bool" where
  "dense_ids st = (snd st = int (length (fst st))
                   \<and> map example_id (fst st) = map int [0..<length (fst st)])"


text \<open>The paragraph \<open>a b\<close> with two questions: the answer \<open>z\<close> at offset 0, which the
  paragraph does not hold, and the answer \<open>b\<close> at offset 2.\<close>

definition reader0 :: SQuAD where
  "reader0 = \<lparr>read_is_training = True, version_2 = False\<rparr>"

definition qa6a :: QA where
  "qa6a = \<lparr>qa_id = [49], question = [113],
            answers = [\<lparr>answer_text = [122], answer_start = 0\<rparr>], qa_is_impossible = False\<rparr>"

definition qa6b :: QA where
  "qa6b = \<lparr>qa_id = [50], question = [113],
            answers = [\<lparr>answer_text = [98], answer_start = 2\<rparr>], qa_is_impossible = False\<rparr>"

definition data6 :: "Paragraph list list" where
  "data6 = [[\<lparr>paragraph_context = [97, 32, 98], qas = [qa6a, qa6b]\<rparr>]]"

definition ex6 :: SquadExample where
  "ex6 = \<lparr>qas_id = [50], question_text = [113], doc_tokens = [[97], [98]],
           example_id = 0, orig_answer_text = Some [98], start_position = Some 1,
           end_position = Some 1, is_impossible = False\<rparr>"



section \<open>A small configuration and example\<close>

text \<open>A tokenizer that makes every character a sub-token; the id of a sub-token is
  the sum of its code points.\<close>

definition char_tokenizer :: Tokenizer where
  "char_tokenizer = \<lparr>tokenize = (\<lambda>w. map (\<lambda>c. [c]) w), token_id = (\<lambda>t. int (sum_list t))\<rparr>"

text \<open>The question \<open>qq\<close> (cut to one sub-token) on the paragraph \<open>ab cd\<close>, with the
  answer \<open>cd\<close>; four document sub-tokens in windows of at most three, stride two.\<close>

definition cfg0 :: SQuADTransform where
  "cfg0 = \<lparr>tokenizer = char_tokenizer, max_seq_length = 7, doc_stride = 2,
            max_query_length = 1, is_training = True\<rparr>"

definition ex0 :: SquadExample where
  "ex0 = \<lparr>qas_id = [49], question_text = [113, 113], doc_tokens = [[97, 98], [99, 100]],
           example_id = 0, orig_answer_text = Some [99, 100], start_position = Some 1,
           end_position = Some 1, is_impossible = False\<rparr>"

text \<open>The two features of \<open>ex0\<close> under \<open>cfg0\<close>.\<close>

definition feat0a :: SquadFeature where
  "feat0a = \<lparr>feat_example_id = 0, feat_qas_id = [49],
     feat_doc_tokens = [[97, 98], [99, 100]], doc_span_index = 0,
     tokens = [CLS, [113], SEP, [97], [98], [99], SEP],
     token_to_orig_map = [(3, 0), (4, 0), (5, 1)],
     token_is_max_context = [(3, True), (4, True), (5, True)],
     input_ids = [410, 113, 416, 97, 98, 99, 416], valid_length = 7,
     segment_ids = [0, 0, 0, 1, 1, 1, 1],
     feat_start_position = 0, feat_end_position = 0, feat_is_impossible = False\<rparr>"

definition feat0b :: SquadFeature where
  "feat0b = \<lparr>feat_example_id = 0, feat_qas_id = [49],
     feat_doc_tokens = [[97, 98], [99, 100]], doc_span_index = 1,
     tokens = [CLS, [113], SEP, [99], [100], SEP],
     token_to_orig_map = [(3, 1), (4, 1)],
     token_is_max_context = [(3, False), (4, True)],
     input_ids = [410, 113, 416, 99, 100, 416, 0], valid_length = 6,
     segment_ids = [0, 0, 0, 1, 1, 1, 0],
     feat_start_position = 3, feat_end_position = 4, feat_is_impossible = False\<rparr>"

text \<open>The aligned answer span lies entirely within a window; the aligned answer span
  is ordered. Both read \<open>(tok_start_position, tok_end_position)\<close>.\<close>

definition span_in_window :: "int option \<Rightarrow> int option \<Rightarrow> DocSpan \<Rightarrow> bool" where
  "span_in_window ts te w =
     (case (ts, te) of (Some s, Some e) \<Rightarrow> start w \<le> s \<and> e \<le> span_end w | _ \<Rightarrow> False)"

definition span_ordered :: "int option \<Rightarrow> int option \<Rightarrow> bool" where
  "span_ordered ts te = (case (ts, te) of (Some s, Some e) \<Rightarrow> s \<le> e | _ \<Rightarrow> True)"

text \<open>
  A tokenizer that drops the zero-width space U+200B (a control character for BERT's
  text cleaning, not whitespace for Python) and makes every other character a
  sub-token. The paragraph \<open>a\<close> U+200B has two words; the second one, the answer, gets
  no sub-token.
\<close>

definition zw_tokenizer :: Tokenizer where
  "zw_tokenizer = \<lparr>tokenize = (\<lambda>w. map (\<lambda>c. [c]) (filter (\<lambda>c. c \<noteq> 8203) w)),
                    token_id = (\<lambda>t. int (sum_list t))\<rparr>"

definition cfg3 :: SQuADTransform where
  "cfg3 = \<lparr>tokenizer = zw_tokenizer, max_seq_length = 7, doc_stride = 2,
            max_query_length = 1, is_training = True\<rparr>"

definition ex3 :: SquadExample where
  "ex3 = \<lparr>qas_id = [49], question_text = [113], doc_tokens = [[97], [8203]],
           example_id = 0, orig_answer_text = Some [8203], start_position = Some 1,
           end_position = Some 1, is_impossible = False\<rparr>"

definition feat3 :: SquadFeature where
  "feat3 = \<lparr>feat_example_id = 0, feat_qas_id = [49],
     feat_doc_tokens = [[97], [8203]], doc_span_index = 0,
     tokens = [CLS, [113], SEP, [97], SEP],
     token_to_orig_map = [(3, 0)], token_is_max_context = [(3, True)],
     input_ids = [410, 113, 416, 97, 416, 0, 0], valid_length = 5,
     segment_ids = [0, 0, 0, 1, 1, 0, 0],
     feat_start_position = 4, feat_end_position = 3, feat_is_impossible = False\<rparr>"

text \<open>A sequence length too small for the one-token query: \<open>max_tokens_for_doc\<close> is
  \<open>3 - 1 - 3 = -1\<close>. \<open>ex7\<close> has the one-word paragraph \<open>a\<close>, \<open>ex_empty\<close> the empty
  paragraph; neither carries labels.\<close>

definition cfg7 :: SQuADTransform where
  "cfg7 = \<lparr>tokenizer = char_tokenizer, max_seq_length = 3, doc_stride = 2,
            max_query_length = 1, is_training = False\<rparr>"

definition ex7 :: SquadExample where
  "ex7 = \<lparr>qas_id = [49], question_text = [113], doc_tokens = [[97]],
           example_id = 0, orig_answer_text = None, start_position = None,
           end_position = None, is_impossible = False\<rparr>"

definition ex_empty :: SquadExample where
  "ex_empty = \<lparr>qas_id = [49], question_text = [113], doc_tokens = [],
           example_id = 0, orig_answer_text = None, start_position = None,
           end_position = None, is_impossible = False\<rparr>"

text \<open>An impossible training example on the empty paragraph.\<close>

definition ex_impossible :: SquadExample where
  "ex_impossible = \<lparr>qas_id = [49], question_text = [113], doc_tokens = [],
           example_id = 0, orig_answer_text = Some [], start_position = Some (- 1),
           end_position = Some (- 1), is_impossible = True\<rparr>"

text \<open>Window \<open>i\<close> is the first window of greatest score among the first \<open>k\<close>
  windows that contain \<open>p\<close>.\<close>

definition first_max ::
  "(int \<Rightarrow> int \<Rightarrow> 'a::linorder) \<Rightarrow> DocSpan list \<Rightarrow> int \<Rightarrow> nat \<Rightarrow> nat \<Rightarrow> bool" where
  "first_max sc ds p k i = (i < k \<and> span_contains (ds ! i) p \<and>
      (\<forall>j<k. span_contains (ds ! j) p \<longrightarrow>
           span_score sc (ds ! j) p \<le> span_score sc (ds ! i) p \<and>
           (j < i \<longrightarrow> span_score sc (ds ! j) p < span_score sc (ds ! i) p)))"

text \<open>Ten sub-tokens, windows of at most four, stride three.\<close>

definition example_windows :: "DocSpan list" where
  "example_windows =
     [\<lparr>start = 0, span_length = 4\<rparr>, \<lparr>start = 3, span_length = 4\<rparr>,
      \<lparr>start = 6, span_length = 4\<rparr>]"

text \<open>Ten sub-tokens in windows of at most four, stride two; 119 sub-tokens in windows
  of at most 118, stride 101.\<close>

definition overlap_windows :: "DocSpan list" where
  "overlap_windows =
     [\<lparr>start = 0, span_length = 4\<rparr>, \<lparr>start = 2, span_length = 4\<rparr>,
      \<lparr>start = 4, span_length = 4\<rparr>, \<lparr>start = 6, span_length = 4\<rparr>]"

definition tie_windows :: "DocSpan list" where
  "tie_windows = [\<lparr>start = 0, span_length = 118\<rparr>, \<lparr>start = 101, span_length = 18\<rparr>]"

section \<open>Evaluation on concrete inputs\<close>

text \<open>The definitions that evaluate the transform and the reader on concrete inputs.\<close>

lemmas transform_defs = transform_def tok_positions_def doc_spans_def split_windows_def
  max_tokens_for_doc_def query_tokens_def sub_tokenize_def all_doc_tokens_def
  orig_to_tok_index_def tok_to_orig_index_def make_feature_def label_positions_def
  convert_tokens_to_ids_def improve_answer_span_def improve_outer.simps improve_inner.simps
  py_index_def py_slice_def py_clip_def check_is_max_context_def max_context_step_def
  doc_spans_loop.simps pad_loop.simps enumerate_eq_zip Let_def CLS_def SEP_def

lemmas reader_defs = read_def segment_def read_qa_def py_index_def py_slice_def py_clip_def
  whitespace_tokenize_def py_strip_def py_split_def py_find_def is_whitespace_def
  py_isspace_def Let_def

section \<open>Properties of the window splitter\<close>

lemma split_windows_example: "split_windows 10 4 3 = Some example_windows"
  by (simp add: split_windows_def doc_spans_loop.simps example_windows_def)

lemma doc_spans_loop_terminates:
  assumes "1 \<le> m" "1 \<le> d"
  shows "s < n \<Longrightarrow> \<exists>ws. doc_spans_loop n m d s acc = Some (acc @ ws) \<and> ws \<noteq> []
           \<and> (\<forall>k \<ge> nat (n - s). doc_spans_bounded k n m d s acc = Some (acc @ ws))
           \<and> length ws \<le> nat (n - s)
           \<and> start (hd ws) = s
           \<and> sorted_wrt (<) (map start ws)
           \<and> (\<forall>w \<in> set ws. s \<le> start w \<and> 1 \<le> span_length w \<and> span_length w \<le> m
                  \<and> start w + span_length w \<le> n)
           \<and> (\<forall>p. s \<le> p \<and> p < n \<longrightarrow> (\<exists>w \<in> set ws. span_contains w p))
           \<and> start (last ws) + span_length (last ws) = n"
proof (induction "nat (n - s)" arbitrary: s acc rule: less_induct)
  case less
  define l where "l = (if n - s > m then m else n - s)"
  define w where "w = \<lparr>start = s, span_length = l\<rparr>"
  have l1: "1 \<le> l" "l \<le> n - s" "l \<le> m"
    using less.prems assms by (auto simp: l_def)
  have fuel: "\<exists>k'. k = Suc k' \<and> nat (n - s) \<le> Suc k'" if "nat (n - s) \<le> k" for k
    using that less.prems by (cases k) auto
  show ?case
  proof (cases "s + l = n")
    case True
    have "doc_spans_loop n m d s acc = Some (acc @ [w])"
      using less.prems True
      by (subst doc_spans_loop.simps) (simp add: l_def w_def Let_def)
    moreover have "\<forall>p. s \<le> p \<and> p < n \<longrightarrow> span_contains w p"
      using True by (auto simp: span_contains_def span_end_def w_def)
    moreover have "\<forall>k \<ge> nat (n - s). doc_spans_bounded k n m d s acc = Some (acc @ [w])"
    proof (intro allI impI)
      fix k assume "nat (n - s) \<le> k"
      from fuel[OF this] obtain k' where "k = Suc k'" by blast
      then show "doc_spans_bounded k n m d s acc = Some (acc @ [w])"
        using less.prems True
        by (subst doc_spans_bounded.simps) (simp add: l_def w_def Let_def)
    qed
    ultimately show ?thesis
      using l1 True less.prems by (intro exI[of _ "[w]"]) (simp add: w_def)
  next
    case False
    define s' where "s' = s + min l d"
    have s': "s < s'" "s' \<le> s + l" "s' < n"
      using l1 assms False by (auto simp: s'_def)
    have step: "doc_spans_loop n m d s acc = doc_spans_loop n m d s' (acc @ [w])"
      using less.prems False
      by (subst doc_spans_loop.simps) (simp add: l_def w_def s'_def Let_def)
    have "nat (n - s') < nat (n - s)" using s' by simp
    from less.hyps[OF this s'(3), of "acc @ [w]"]
    obtain ws where ws: "doc_spans_loop n m d s' ((acc @ [w])) = Some ((acc @ [w]) @ ws)"
      "ws \<noteq> []" "length ws \<le> nat (n - s')" "start (hd ws) = s'"
      "sorted_wrt (<) (map start ws)"
      "\<forall>w \<in> set ws. s' \<le> start w \<and> 1 \<le> span_length w \<and> span_length w \<le> m
                  \<and> start w + span_length w \<le> n"
      "\<forall>p. s' \<le> p \<and> p < n \<longrightarrow> (\<exists>w \<in> set ws. span_contains w p)"
      "start (last ws) + span_length (last ws) = n"
      "\<forall>k \<ge> nat (n - s'). doc_spans_bounded k n m d s' (acc @ [w]) = Some ((acc @ [w]) @ ws)"
      by blast
    have a: "doc_spans_loop n m d s acc = Some (acc @ (w # ws))"
      using step ws(1) by simp
    have a': "\<forall>k \<ge> nat (n - s). doc_spans_bounded k n m d s acc = Some (acc @ (w # ws))"
    proof (intro allI impI)
      fix k assume "nat (n - s) \<le> k"
      from fuel[OF this] obtain k' where k': "k = Suc k'" "nat (n - s) \<le> Suc k'" by blast
      have "nat (n - s') \<le> k'" using k'(2) s' by simp
      with ws(9) have "doc_spans_bounded k' n m d s' (acc @ [w]) = Some ((acc @ [w]) @ ws)"
        by blast
      then show "doc_spans_bounded k n m d s acc = Some (acc @ (w # ws))"
        using less.prems False k'(1)
        by (subst doc_spans_bounded.simps) (simp add: l_def w_def s'_def Let_def)
    qed
    have b: "length (w # ws) \<le> nat (n - s)" using ws(3) s' by simp
    have c: "sorted_wrt (<) (map start (w # ws))"
      using ws(5,6) s'(1) by (auto simp: w_def)
    have d: "\<forall>x \<in> set (w # ws). s \<le> start x \<and> 1 \<le> span_length x \<and> span_length x \<le> m
                  \<and> start x + span_length x \<le> n"
      using ws(6) s'(1) l1 by (auto simp: w_def)
    have e: "\<forall>p. s \<le> p \<and> p < n \<longrightarrow> (\<exists>x \<in> set (w # ws). span_contains x p)"
    proof (intro allI impI)
      fix p assume p: "s \<le> p \<and> p < n"
      show "\<exists>x \<in> set (w # ws). span_contains x p"
      proof (cases "p < s'")
        case True
        then have "span_contains w p"
          using p s'(2) by (simp add: span_contains_def span_end_def w_def)
        then show ?thesis by simp
      next
        case False
        then show ?thesis using ws(7) p by auto
      qed
    qed
    have f: "start (last (w # ws)) + span_length (last (w # ws)) = n"
      using ws(2,8) by simp
    show ?thesis
      using a a' b c d e f by (intro exI[of _ "w # ws"]) (simp add: w_def)
  qed
qed

lemma doc_spans_loop_diverges_aux:
  assumes "doc_spans_loop n m d s acc = Some r"
  shows "m < 1 \<longrightarrow> \<not> s < n"
proof (rule doc_spans_loop.raw_induct
         [where P = "\<lambda>n m d s acc r. m < 1 \<longrightarrow> \<not> s < n", OF _ assms], goal_cases)
  case (1 f n m d s acc r)
  show ?case
  proof (intro impI notI)
    assume m: "m < 1" and lt: "s < n"
    have l: "(if m < n - s then m else n - s) = m" using lt m by simp
    have ne: "s + m \<noteq> n" using lt m by simp
    have "f n m d (s + min m d) (acc @ [\<lparr>start = s, span_length = m\<rparr>]) = Some r"
      using "1"(2) lt ne by (simp add: Let_def l)
    from "1"(1)[OF this] show False using lt m by simp
  qed
qed

lemma doc_spans_loop_diverges:
  "m < 1 \<Longrightarrow> s < n \<Longrightarrow> doc_spans_loop n m d s acc = None"
  using doc_spans_loop_diverges_aux[of n m d s acc]
  by (cases "doc_spans_loop n m d s acc") auto

lemma doc_spans_loop_empty: "n \<le> s \<Longrightarrow> doc_spans_loop n m d s acc = Some acc"
  by (subst doc_spans_loop.simps) simp

text \<open>
  C2. For \<open>N \<ge> 1\<close>, \<open>max_tokens_for_doc \<ge> 1\<close> and \<open>doc_stride \<ge> 1\<close> the splitter
  returns a non-empty list of windows; every window lies within \<open>[0, N)\<close>, every
  position of \<open>[0, N)\<close> is in some window (no gaps), and the final window ends exactly
  at \<open>N\<close>: the last index it covers is \<open>N - 1\<close>.
\<close>

theorem split_windows_cover:
  assumes "1 \<le> n" "1 \<le> m" "1 \<le> d"
  shows "\<exists>ws. split_windows n m d = Some ws \<and> ws \<noteq> []
           \<and> (\<forall>w \<in> set ws. 0 \<le> start w \<and> 1 \<le> span_length w
                  \<and> start w + span_length w \<le> n)
           \<and> (\<forall>p. 0 \<le> p \<and> p < n \<longrightarrow> (\<exists>w \<in> set ws. span_contains w p))
           \<and> start (last ws) + span_length (last ws) = n
           \<and> span_end (last ws) = n - 1"
proof -
  have "0 < n" using assms(1) by simp
  from doc_spans_loop_terminates[OF assms(2,3) this, of "[]"]
  show ?thesis unfolding split_windows_def span_end_def by fastforce
qed

theorem split_windows_cover_witness:
  "(1::int) \<le> 10 \<and> (1::int) \<le> 4 \<and> (1::int) \<le> 3
   \<and> split_windows 10 4 3 = Some example_windows
   \<and> span_contains (example_windows ! 1) 5 \<and> span_end (last example_windows) = 9"
proof -
  have h: "(1::int) \<le> 10" "(1::int) \<le> 4" "(1::int) \<le> 3" by simp_all
  from split_windows_cover[OF h] obtain ws where
    ws: "split_windows 10 4 3 = Some ws" "span_end (last ws) = 10 - 1" by blast
  have "ws = example_windows" using ws(1) split_windows_example by simp
  moreover have "span_contains (example_windows ! 1) 5"
    by (simp add: example_windows_def span_contains_def span_end_def)
  ultimately show ?thesis using ws h by simp
qed

text \<open>
  C9. For \<open>N \<ge> 1\<close>, \<open>max_tokens_for_doc \<ge> 1\<close> and \<open>doc_stride \<ge> 1\<close> the splitter
  loop terminates, and a budget of \<open>N\<close> iterations is enough for it: the loop run
  with that budget returns the same windows. Each iteration emits one window, so there
  are at most \<open>N\<close> windows, and each window starts strictly after the one before it
  (an iteration that is not the last advances the start offset by at least 1).
\<close>

theorem split_windows_terminates:
  assumes "1 \<le> n" "1 \<le> m" "1 \<le> d"
  shows "\<exists>ws. split_windows n m d = Some ws
           \<and> doc_spans_bounded (nat n) n m d 0 [] = Some ws
           \<and> length ws \<le> nat n
           \<and> sorted_wrt (<) (map start ws)"
proof -
  have "0 < n" using assms(1) by simp
  from doc_spans_loop_terminates[OF assms(2,3) this, of "[]"]
  show ?thesis unfolding split_windows_def by fastforce
qed

theorem split_windows_terminates_witness:
  "(1::int) \<le> 10 \<and> (1::int) \<le> 4 \<and> (1::int) \<le> 3
   \<and> doc_spans_bounded (nat 10) 10 4 3 0 [] = Some example_windows
   \<and> length example_windows \<le> nat 10"
proof -
  have h: "(1::int) \<le> 10" "(1::int) \<le> 4" "(1::int) \<le> 3" by simp_all
  from split_windows_terminates[OF h] obtain ws where
    ws: "split_windows 10 4 3 = Some ws" "doc_spans_bounded (nat 10) 10 4 3 0 [] = Some ws"
        "length ws \<le> nat 10" by blast
  have "ws = example_windows" using ws(1) split_windows_example by simp
  then show ?thesis using ws h by simp
qed

section \<open>Properties of the max-context resolver\<close>

lemma max_context_loop_snoc:
  "max_context_loop sc p (xs @ [x]) best =
     max_context_step sc p x (max_context_loop sc p xs best)"
  by (induction xs arbitrary: best) simp_all

lemma max_context_step_eq:
  "max_context_step sc p (i, w) best =
     (if span_contains w p then
        (case best of None \<Rightarrow> Some (span_score sc w p, i)
         | Some (bs, bi) \<Rightarrow>
             if span_score sc w p > bs then Some (span_score sc w p, i) else Some (bs, bi))
      else best)"
  by (auto simp: max_context_step_def span_contains_def span_end_def span_score_def Let_def
           split: option.splits)

lemma max_context_loop_prefix:
  "k \<le> length ds \<Longrightarrow>
   (case max_context_loop sc p (enumerate 0 (take k ds)) None of
      None \<Rightarrow> \<forall>j<k. \<not> span_contains (ds ! j) p
    | Some (s, i) \<Rightarrow> s = span_score sc (ds ! i) p \<and> first_max sc ds p k i)"
proof (induction k)
  case 0
  then show ?case by simp
next
  case (Suc k)
  then have k: "k < length ds" by simp
  have e: "enumerate 0 (take (Suc k) ds) = enumerate 0 (take k ds) @ [(k, ds ! k)]"
    using k by (simp add: take_Suc_conv_app_nth enumerate_append_eq)
  note IH = Suc.IH[OF less_imp_le[OF k]]
  show ?case
  proof (cases "max_context_loop sc p (enumerate 0 (take k ds)) None")
    case None
    with IH have no: "\<forall>j<k. \<not> span_contains (ds ! j) p" by simp
    show ?thesis
      using no None
      by (auto simp: e max_context_loop_snoc max_context_step_eq first_max_def less_Suc_eq)
  next
    case (Some b)
    obtain s i where b: "b = (s, i)" by (cases b)
    with IH Some have s: "s = span_score sc (ds ! i) p" and fm: "first_max sc ds p k i"
      by simp_all
    show ?thesis
    proof (cases "span_contains (ds ! k) p \<and> span_score sc (ds ! k) p > s")
      case True
      then have "max_context_loop sc p (enumerate 0 (take (Suc k) ds)) None
                   = Some (span_score sc (ds ! k) p, k)"
        by (simp add: e max_context_loop_snoc max_context_step_eq Some b)
      moreover have "first_max sc ds p (Suc k) k"
        using True fm s unfolding first_max_def
        by (auto simp: less_Suc_eq intro: less_imp_le le_less_trans order_trans)
      ultimately show ?thesis by simp
    next
      case False
      then have "max_context_loop sc p (enumerate 0 (take (Suc k) ds)) None = Some (s, i)"
        by (auto simp: e max_context_loop_snoc max_context_step_eq Some b)
      moreover have "first_max sc ds p (Suc k) i"
        using False fm s unfolding first_max_def
        by (auto simp: less_Suc_eq not_less)
      ultimately show ?thesis using s by simp
    qed
  qed
qed

lemma first_max_unique:
  "i = j" if "first_max sc ds p k i" "first_max sc ds p k j"
proof (rule ccontr)
  note a = that
  assume "i \<noteq> j"
  then consider "i < j" | "j < i" by linarith
  then show False
  proof cases
    case 1
    then have "span_score sc (ds ! i) p < span_score sc (ds ! j) p"
      "span_score sc (ds ! j) p \<le> span_score sc (ds ! i) p"
      using a by (auto simp: first_max_def)
    then show False by simp
  next
    case 2
    then have "span_score sc (ds ! j) p < span_score sc (ds ! i) p"
      "span_score sc (ds ! i) p \<le> span_score sc (ds ! j) p"
      using a by (auto simp: first_max_def)
    then show False by simp
  qed
qed

lemma check_is_max_context_iff:
  "check_is_max_context sc ds c p \<longleftrightarrow> first_max sc ds p (length ds) c"
proof -
  note inv = max_context_loop_prefix[where k = "length ds" and ds = ds and sc = sc and p = p, simplified]
  show ?thesis
  proof (cases "max_context_loop sc p (enumerate 0 ds) None")
    case None
    with inv have "\<forall>j<length ds. \<not> span_contains (ds ! j) p" by simp
    then show ?thesis
      using None by (auto simp: check_is_max_context_def first_max_def)
  next
    case (Some b)
    obtain s i where b: "b = (s, i)" by (cases b)
    with inv Some have fm: "first_max sc ds p (length ds) i" by simp
    have "check_is_max_context sc ds c p \<longleftrightarrow> c = i"
      by (simp add: check_is_max_context_def Some b)
    then show ?thesis using fm first_max_unique[OF fm] by blast
  qed
qed

lemma check_is_max_context_first_max:
  assumes "k < length ds" "span_contains (ds ! k) p"
  shows "\<exists>i. first_max sc ds p (length ds) i
           \<and> (\<forall>c. check_is_max_context sc ds c p \<longleftrightarrow> c = i)"
proof -
  note inv = max_context_loop_prefix[where k = "length ds" and ds = ds and sc = sc and p = p, simplified]
  obtain s i where si: "max_context_loop sc p (enumerate 0 ds) None = Some (s, i)"
    using inv assms by (cases "max_context_loop sc p (enumerate 0 ds) None") auto
  with inv have fm: "first_max sc ds p (length ds) i" by simp
  have "\<forall>c. check_is_max_context sc ds c p \<longleftrightarrow> c = i"
    by (simp add: check_is_max_context_def si)
  with fm show ?thesis by blast
qed

lemma split_windows_overlap: "split_windows 10 4 2 = Some overlap_windows"
  by (simp add: split_windows_def doc_spans_loop.simps overlap_windows_def)

lemma split_windows_tie: "split_windows 119 118 101 = Some tie_windows"
  by (simp add: split_windows_def doc_spans_loop.simps tie_windows_def)

text \<open>
  C1 (as amended). Take any list of windows shorter than \<open>2^63\<close> (those of the window
  splitter among them) and a position \<open>p\<close> that some window contains. Let the score of
  a window be \<open>min(p - start, end - p) + 0.01 * length\<close> as double-precision
  floating-point arithmetic evaluates it: the integers converted, the product and then
  the sum rounded to the nearest double. Then exactly one window index is flagged as the
  max-context owner of \<open>p\<close>: it is a window that contains \<open>p\<close>, no window containing
  \<open>p\<close> has a greater score, and every window containing \<open>p\<close> with a lower index has a
  strictly smaller score (the lowest index wins on ties of the computed score).
\<close>

theorem check_is_max_context_owner:
  assumes "k < length ds" "span_contains (ds ! k) p"
    and "list_all (\<lambda>w. span_length w < 2 ^ 63) ds"
  shows "let score = (\<lambda>w. double_add (double_of_int (min (p - start w) (span_end w - p)))
                          (double_mul (double_round (1 / 100)) (double_of_int (span_length w))))
         in \<exists>i. i < length ds \<and> span_contains (ds ! i) p
              \<and> (\<forall>j<length ds. span_contains (ds ! j) p \<longrightarrow>
                     score (ds ! j) \<le> score (ds ! i) \<and> (j < i \<longrightarrow> score (ds ! j) < score (ds ! i)))
              \<and> (\<forall>c. check_is_max_context float_score ds c p \<longleftrightarrow> c = i)"
proof -
  have sc: "span_score float_score w p =
              double_add (double_of_int (min (p - start w) (span_end w - p)))
                (double_mul (double_round (1 / 100)) (double_of_int (span_length w)))" for w
    by (simp add: span_score_def float_score_def)
  from check_is_max_context_first_max[OF assms(1,2), of float_score]
  show ?thesis unfolding first_max_def sc Let_def by blast
qed

theorem check_is_max_context_owner_witness:
  "(0::nat) < length overlap_windows \<and> span_contains (overlap_windows ! 0) 3
   \<and> list_all (\<lambda>w. span_length w < 2 ^ 63) overlap_windows
   \<and> split_windows 10 4 2 = Some overlap_windows
   \<and> check_is_max_context float_score overlap_windows 1 3
   \<and> \<not> check_is_max_context float_score overlap_windows 0 3"
proof -
  have h: "(0::nat) < length overlap_windows" "span_contains (overlap_windows ! 0) 3"
    "list_all (\<lambda>w. span_length w < 2 ^ 63) overlap_windows"
    by (simp_all add: overlap_windows_def span_contains_def span_end_def)
  from check_is_max_context_owner[OF h] obtain i where
    i: "\<forall>c. check_is_max_context float_score overlap_windows c 3 \<longleftrightarrow> c = i"
    unfolding Let_def by blast
  have "check_is_max_context float_score overlap_windows 1 3" by code_simp
  with i have "i = 1" by simp
  with i h split_windows_overlap show ?thesis by simp
qed

text \<open>
  The claim as stated fails. The splitter's windows for 119 sub-tokens, at most 118 a
  window and stride 101, are \<open>(0, 118)\<close> and \<open>(101, 18)\<close>; both contain position 115.
  The formula in exact arithmetic gives both the score \<open>159/50\<close>, a tie that the lowest
  index, window 0, would win. The code computes \<open>2 + 0.01 * 118 = 3.1799999999999997\<close>
  and \<open>3 + 0.01 * 18 = 3.18\<close> and flags window 1.
\<close>

theorem check_is_max_context_owner_counterexample:
  "split_windows 119 118 101 = Some tie_windows
   \<and> span_contains (tie_windows ! 0) 115 \<and> span_contains (tie_windows ! 1) 115
   \<and> span_score spec_score (tie_windows ! 0) 115 = span_score spec_score (tie_windows ! 1) 115
   \<and> span_score float_score (tie_windows ! 0) 115 < span_score float_score (tie_windows ! 1) 115
   \<and> \<not> check_is_max_context float_score tie_windows 0 115
   \<and> check_is_max_context float_score tie_windows 1 115"
proof -
  have a: "span_contains (tie_windows ! 0) 115" "span_contains (tie_windows ! 1) 115"
    "span_score spec_score (tie_windows ! 0) 115 = span_score spec_score (tie_windows ! 1) 115"
    by (simp_all add: tie_windows_def span_contains_def span_end_def span_score_def
          spec_score_def)
  have b: "span_score float_score (tie_windows ! 0) 115
             < span_score float_score (tie_windows ! 1) 115"
    by code_simp
  have c: "\<not> check_is_max_context float_score tie_windows 0 115"
    "check_is_max_context float_score tie_windows 1 115"
    by code_simp+
  from split_windows_tie a b c show ?thesis by simp
qed

section \<open>Properties of the span aligner\<close>

lemma improve_inner_find:
  "improve_inner dts t s e =
     find (\<lambda>se. sub_span_text dts se = t) (map (\<lambda>e. (s, e)) (rev [s..e]))"
proof (induction dts t s e rule: improve_inner.induct)
  case (1 dts t s e)
  show ?case
  proof (cases "e > s - 1")
    case True
    then have u: "[s..e] = [s..e - 1] @ [e]" by (simp add: upto_rec2)
    show ?thesis
      using True "1.IH"
      by (subst improve_inner.simps) (simp add: u sub_span_text_def Let_def)
  next
    case False
    then show ?thesis by (subst improve_inner.simps) simp
  qed
qed

lemma find_append_case:
  "find P (xs @ ys) = (case find P xs of Some x \<Rightarrow> Some x | None \<Rightarrow> find P ys)"
  by (induction xs) auto

lemma improve_outer_find:
  "improve_outer dts t ie s = find (\<lambda>se. sub_span_text dts se = t) (span_candidates s ie)"
proof (induction dts t ie s rule: improve_outer.induct)
  case (1 dts t ie s)
  show ?case
  proof (cases "s < ie + 1")
    case True
    then have u: "[s..ie] = s # [s + 1..ie]" by (simp add: upto_rec1)
    show ?thesis
      using True "1.IH"
      by (subst improve_outer.simps)
         (auto simp: u span_candidates_def find_append_case improve_inner_find
               split: option.splits)
  next
    case False
    then show ?thesis by (subst improve_outer.simps) (simp add: span_candidates_def)
  qed
qed

lemma set_span_candidates:
  "set (span_candidates a b) = {(s, e). a \<le> s \<and> s \<le> e \<and> e \<le> b}"
  by (force simp: span_candidates_def)

text \<open>Within the document, the slice \<open>doc_tokens[s:e+1]\<close> holds the sub-tokens at
  the positions \<open>s, \<dots>, e\<close>.\<close>

lemma take_drop_nth:
  "a \<le> b \<Longrightarrow> b \<le> length xs \<Longrightarrow> take (b - a) (drop a xs) = map (\<lambda>i. xs ! i) [a..<b]"
  by (rule nth_equalityI) auto

lemma py_slice_in_range:
  assumes "0 \<le> s" "s \<le> e" "e < int (length xs)"
  shows "py_slice xs s (e + 1) = map (\<lambda>i. xs ! i) [nat s..<Suc (nat e)]"
proof -
  have c: "py_clip (length xs) s = nat s" "py_clip (length xs) (e + 1) = Suc (nat e)"
    using assms by (auto simp: py_clip_def)
  have "nat s \<le> Suc (nat e)" "Suc (nat e) \<le> length xs" using assms by simp_all
  from take_drop_nth[OF this] show ?thesis
    unfolding py_slice_def c Let_def .
qed

lemma improve_answer_span_cases:
  "improve_answer_span dts a b tk ans = (s, e) \<Longrightarrow>
     (s, e) = (a, b) \<or> (a \<le> s \<and> s \<le> e \<and> e \<le> b)"
proof -
  assume r: "improve_answer_span dts a b tk ans = (s, e)"
  show ?thesis
  proof (cases "improve_outer dts (join_space (tk ans)) b a")
    case None
    with r show ?thesis by (simp add: improve_answer_span_def)
  next
    case (Some se)
    with r have "se = (s, e)" by (simp add: improve_answer_span_def)
    with Some have "(s, e) \<in> set (span_candidates a b)"
      unfolding improve_outer_find by (auto simp: find_Some_iff)
    then show ?thesis by (simp add: set_span_candidates)
  qed
qed

text \<open>
  C5. The aligner tokenizes the answer text and joins it with single spaces into the
  target; it returns the first sub-span, in the order \<open>s\<close> ascending from
  \<open>input_start\<close> and for each \<open>s\<close> the end \<open>e\<close> descending from \<open>input_end\<close>, whose
  space-joined sub-tokens \<open>doc_tokens[s:e+1]\<close> equal the target, and
  \<open>(input_start, input_end)\<close> unchanged when there is none. The sub-spans tried are
  exactly those with \<open>input_start \<le> s \<le> e \<le> input_end\<close>.
\<close>

theorem improve_answer_span_spec:
  "improve_answer_span dts input_start input_end tk ans =
     spec_improve_answer_span dts input_start input_end tk ans
   \<and> set (span_candidates input_start input_end) =
       {(s, e). input_start \<le> s \<and> s \<le> e \<and> e \<le> input_end}"
  by (simp add: improve_answer_span_def spec_improve_answer_span_def improve_outer_find
        set_span_candidates)

text \<open>The example of the source's comment: the sub-tokens \<open>( 1895 - 1943 ) .\<close>, the
  answer \<open>1895\<close> and the initial span \<open>[0, 5]\<close> give \<open>[1, 1]\<close>.\<close>

lemma improve_answer_span_example:
  "improve_answer_span [[40], [49, 56, 57, 53], [45], [49, 57, 52, 51], [41], [46]] 0 5
     (\<lambda>t. [t]) [49, 56, 57, 53] = (1, 1)"
  by code_simp

section \<open>Properties of the transform\<close>


lemma query_loop_eq: "query_loop q st = (fst st @ q, snd st @ replicate (length q) 0)"
  by (induction q arbitrary: st) (simp_all add: replicate_app_Cons_same)


lemma doc_position_loop_Inr:
  "doc_position_loop sc t2o adt spans si w is (toks, tom, tmc, segs) = Inr (toks', tom', tmc', segs')
   \<Longrightarrow> length toks' = length toks + length is \<and> segs' = segs @ replicate (length is) 1"
proof (induction "is" arbitrary: toks tom tmc segs)
  case Nil
  then show ?case by simp
next
  case (Cons i "is")
  from Cons.prems show ?case
    by (auto simp: Let_def replicate_app_Cons_same split: sum.splits dest!: Cons.IH)
qed


lemma pad_loop_eq:
  "pad_loop msl (ids, segs) =
     (ids @ replicate (nat (msl - int (length ids))) 0,
      segs @ replicate (nat (msl - int (length ids))) 0)"
proof (induction "nat (msl - int (length ids))" arbitrary: ids segs)
  case 0
  then show ?case by (subst pad_loop.simps) simp
next
  case (Suc k)
  then have lt: "int (length ids) < msl" by simp
  have k: "k = nat (msl - int (length (ids @ [0])))" using Suc.hyps(2) by simp
  have n: "nat (msl - int (length ids)) = Suc k" using Suc.hyps(2) by simp
  have "pad_loop msl (ids, segs) = pad_loop msl (ids @ [0], segs @ [0])"
    using lt by (subst pad_loop.simps) simp
  also have "\<dots> = ((ids @ [0]) @ replicate k 0, (segs @ [0]) @ replicate k 0)"
    using Suc.hyps(1)[OF k, of "segs @ [0]"] k by simp
  finally show ?case unfolding n by simp
qed


lemma make_feature_Inr:
  assumes "make_feature sc cfg ex ts te spans i w = Inr f"
  shows "feature_shape cfg ex w f \<and> doc_span_index f = i
         \<and> label_positions cfg ex ts te w = Inr (feat_start_position f, feat_end_position f)"
proof -
  define q where "q = query_tokens cfg ex"
  obtain toks1 tom tmc segs1 where
    dl: "doc_position_loop sc (tok_to_orig_index cfg ex) (all_doc_tokens cfg ex) spans i w
           [0..<nat (span_length w)] ([CLS] @ q @ [SEP], [], [], 0 # replicate (length q) 0 @ [0])
         = Inr (toks1, tom, tmc, segs1)"
    using assms unfolding make_feature_def query_loop_eq q_def
    by (auto split: sum.splits)
  from doc_position_loop_Inr[OF dl] have
    l1: "length toks1 = length q + 2 + nat (span_length w)" and
    s1: "segs1 = (0 # replicate (length q) 0 @ [0]) @ replicate (nat (span_length w)) 1"
    by simp_all
  define ids where "ids = convert_tokens_to_ids (tokenizer cfg) (toks1 @ [SEP])"
  have li: "length ids = length q + nat (span_length w) + 3"
    using l1 by (simp add: ids_def convert_tokens_to_ids_def)
  define k where "k = nat (max_seq_length cfg - int (length ids))"
  have ls: "int (length segs1) + 1 = int (length ids)" using li s1 by simp
  have f: "int (length ids + k) = max_seq_length cfg"
    "valid_length f = length ids" "input_ids f = ids @ replicate k 0"
    "segment_ids f = (segs1 @ [1]) @ replicate k 0" "doc_span_index f = i"
    "label_positions cfg ex ts te w = Inr (feat_start_position f, feat_end_position f)"
    using assms dl ls unfolding make_feature_def query_loop_eq q_def[symmetric]
    by (auto simp: Let_def pad_loop_eq ids_def[symmetric] k_def[symmetric]
             split: sum.splits if_splits)
  have k': "k = nat (max_seq_length cfg) - length ids" using f(1) by (simp add: k_def)
  have seg: "segs1 @ [1] = replicate (length q + 2) 0 @ replicate (nat (span_length w) + 1) 1"
    unfolding s1 by (simp add: replicate_app_Cons_same replicate_append_same)
  show ?thesis
    using f li l1 unfolding feature_shape_def Let_def q_def[symmetric] seg k'
    by auto
qed



lemma feature_loop_Inr:
  "feature_loop sc cfg ex ts te spans xs acc = Inr fs \<Longrightarrow>
     \<exists>gs. fs = acc @ gs \<and>
       list_all2 (\<lambda>x g. make_feature sc cfg ex ts te spans (fst x) (snd x) = Inr g) xs gs"
proof (induction xs arbitrary: acc)
  case Nil
  then show ?case by simp
next
  case (Cons x xs)
  from Cons.prems obtain g where
    g: "make_feature sc cfg ex ts te spans (fst x) (snd x) = Inr g"
    and r: "feature_loop sc cfg ex ts te spans xs (acc @ [g]) = Inr fs"
    by (auto split: sum.splits)
  from Cons.IH[OF r] obtain gs where "fs = (acc @ [g]) @ gs"
    "list_all2 (\<lambda>x g. make_feature sc cfg ex ts te spans (fst x) (snd x) = Inr g) xs gs"
    by blast
  with g show ?case by (intro exI[of _ "g # gs"]) simp
qed


lemma feature_loop_member:
  assumes "feature_loop sc cfg ex ts te spans (enumerate 0 ws) [] = Inr fs" "f \<in> set fs"
  shows "\<exists>i<length ws. make_feature sc cfg ex ts te spans i (ws ! i) = Inr f"
proof -
  from feature_loop_Inr[OF assms(1)] have
    la: "list_all2 (\<lambda>x g. make_feature sc cfg ex ts te spans (fst x) (snd x) = Inr g)
           (enumerate 0 ws) fs" by simp
  from assms(2) obtain j where j: "j < length fs" "f = fs ! j" by (auto simp: in_set_conv_nth)
  have len: "length fs = length ws" using la by (auto dest: list_all2_lengthD)
  from la j have "make_feature sc cfg ex ts te spans (fst (enumerate 0 ws ! j))
                    (snd (enumerate 0 ws ! j)) = Inr f"
    by (auto dest: list_all2_nthD2)
  then show ?thesis using j len by (auto simp: nth_enumerate_eq)
qed




lemma transform_ex0: "transform float_score cfg0 ex0 = Some (Inr [feat0a, feat0b])"
  by code_simp


lemma label_positions_Inr:
  assumes "label_positions cfg ex ts te w = Inr (sp, ep)"
  shows "sp \<noteq> 0 \<or> ep \<noteq> 0 \<Longrightarrow>
           \<exists>s e. ts = Some s \<and> te = Some e \<and> start w \<le> s \<and> e \<le> span_end w
              \<and> sp = s - start w + int (length (query_tokens cfg ex)) + 2
              \<and> ep = e - start w + int (length (query_tokens cfg ex)) + 2"
    and "is_impossible ex \<or> \<not> span_in_window ts te w \<Longrightarrow> sp = 0 \<and> ep = 0"
  using assms
  by (auto simp: label_positions_def span_in_window_def span_end_def Let_def
           split: if_splits option.splits sum.splits)

lemma transform_Inr_member:
  assumes "transform sc cfg ex = Some (Inr fs)" "f \<in> set fs"
    "tok_positions cfg ex = Inr (ts, te)" "doc_spans cfg ex = Some ws"
  shows "doc_span_index f < length ws
         \<and> make_feature sc cfg ex ts te ws (doc_span_index f) (ws ! doc_span_index f) = Inr f"
proof -
  have fl: "feature_loop sc cfg ex ts te ws (enumerate 0 ws) [] = Inr fs"
    using assms(1,3,4) by (simp add: transform_def)
  from feature_loop_member[OF fl assms(2)] obtain i where
    i: "i < length ws" "make_feature sc cfg ex ts te ws i (ws ! i) = Inr f" by blast
  from make_feature_Inr[OF i(2)] have "doc_span_index f = i" by simp
  with i show ?thesis by simp
qed

text \<open>
  C3 (as amended). Let the aligned answer span be ordered, \<open>tok_start_position \<le>
  tok_end_position\<close>. Then for every feature the transform returns: if
  \<open>start_position \<noteq> 0\<close> or \<open>end_position \<noteq> 0\<close>, both lie within
  \<open>[0, valid_length)\<close> and \<open>start_position \<le> end_position\<close>; and both are 0 whenever
  the example is impossible or the aligned answer span does not lie entirely within the
  feature's window.
\<close>

theorem feature_label_containment:
  assumes "transform sc cfg ex = Some (Inr fs)" "f \<in> set fs"
    and "tok_positions cfg ex = Inr (ts, te)" "doc_spans cfg ex = Some ws"
    and "span_ordered ts te"
  shows "(feat_start_position f \<noteq> 0 \<or> feat_end_position f \<noteq> 0 \<longrightarrow>
            0 \<le> feat_start_position f
            \<and> feat_start_position f \<le> feat_end_position f
            \<and> feat_end_position f < int (valid_length f))
         \<and> (is_impossible ex \<or> \<not> span_in_window ts te (ws ! doc_span_index f) \<longrightarrow>
              feat_start_position f = 0 \<and> feat_end_position f = 0)"
proof -
  define w where "w = ws ! doc_span_index f"
  from transform_Inr_member[OF assms(1-4)] have
    mf: "make_feature sc cfg ex ts te ws (doc_span_index f) w = Inr f" by (simp add: w_def)
  from make_feature_Inr[OF mf] have
    sh: "feature_shape cfg ex w f" and
    lp: "label_positions cfg ex ts te w = Inr (feat_start_position f, feat_end_position f)"
    by simp_all
  have v: "valid_length f = length (query_tokens cfg ex) + nat (span_length w) + 3"
    using sh unfolding feature_shape_def Let_def by blast
  have a: "0 \<le> feat_start_position f \<and> feat_start_position f \<le> feat_end_position f
            \<and> feat_end_position f < int (valid_length f)"
    if nz: "feat_start_position f \<noteq> 0 \<or> feat_end_position f \<noteq> 0"
  proof -
    from label_positions_Inr(1)[OF lp nz] obtain s e where
      se: "ts = Some s" "te = Some e" "start w \<le> s" "e \<le> span_end w"
        "feat_start_position f = s - start w + int (length (query_tokens cfg ex)) + 2"
        "feat_end_position f = e - start w + int (length (query_tokens cfg ex)) + 2"
      by blast
    have "s \<le> e" using assms(5) se(1,2) by (simp add: span_ordered_def)
    then show ?thesis using se v by (auto simp: span_end_def)
  qed
  have b: "feat_start_position f = 0 \<and> feat_end_position f = 0"
    if "is_impossible ex \<or> \<not> span_in_window ts te w"
    using label_positions_Inr(2)[OF lp that] .
  show ?thesis using a b unfolding w_def by blast
qed

lemma tok_positions_ex0: "tok_positions cfg0 ex0 = Inr (Some 2, Some 3)"
  by code_simp

lemma doc_spans_ex0:
  "doc_spans cfg0 ex0 = Some [\<lparr>start = 0, span_length = 3\<rparr>, \<lparr>start = 2, span_length = 2\<rparr>]"
  by code_simp

theorem feature_label_containment_witness:
  "transform float_score cfg0 ex0 = Some (Inr [feat0a, feat0b])
   \<and> tok_positions cfg0 ex0 = Inr (Some 2, Some 3)
   \<and> span_ordered (Some 2) (Some 3)
   \<and> feat_start_position feat0b = 3 \<and> feat_end_position feat0b = 4
   \<and> 0 \<le> feat_start_position feat0b
   \<and> feat_start_position feat0b \<le> feat_end_position feat0b
   \<and> feat_end_position feat0b < int (valid_length feat0b)"
proof -
  have m: "feat0b \<in> set [feat0a, feat0b]" by simp
  have o: "span_ordered (Some 2) (Some 3)" by (simp add: span_ordered_def)
  have nz: "feat_start_position feat0b = 3" "feat_end_position feat0b = 4"
    by (simp_all add: feat0b_def)
  from feature_label_containment[OF transform_ex0 m tok_positions_ex0 doc_spans_ex0 o] nz
  have "0 \<le> feat_start_position feat0b
        \<and> feat_start_position feat0b \<le> feat_end_position feat0b
        \<and> feat_end_position feat0b < int (valid_length feat0b)"
    by simp
  then show ?thesis using transform_ex0 tok_positions_ex0 o nz by simp
qed

text \<open>
  The claim as stated fails: the answer word of \<open>ex3\<close> gets no sub-token, the aligned
  span is \<open>(1, 0)\<close>, and the single feature has \<open>start_position = 4\<close> and
  \<open>end_position = 3\<close>.
\<close>

theorem feature_label_containment_counterexample:
  "transform float_score cfg3 ex3 = Some (Inr [feat3])
   \<and> feat_start_position feat3 \<noteq> 0
   \<and> \<not> feat_start_position feat3 \<le> feat_end_position feat3"
proof -
  have "transform float_score cfg3 ex3 = Some (Inr [feat3])"
    by (simp add: transform_defs cfg3_def ex3_def feat3_def zw_tokenizer_def)
  then show ?thesis by (simp add: feat3_def)
qed

lemma tok_positions_untrained:
  "\<not> (is_training cfg \<and> \<not> is_impossible ex) \<Longrightarrow> \<exists>x. tok_positions cfg ex = Inr x"
  by (auto simp: tok_positions_def)

text \<open>
  C10. When the document yields no sub-token and the example is not an answerable
  training example, the splitter produces no window and the transform returns the empty
  feature list; nothing is raised.
\<close>

theorem transform_empty_document:
  assumes "all_doc_tokens cfg ex = []" "\<not> (is_training cfg \<and> \<not> is_impossible ex)"
  shows "doc_spans cfg ex = Some [] \<and> transform sc cfg ex = Some (Inr [])"
proof -
  have ds: "doc_spans cfg ex = Some []"
    using assms(1) by (simp add: doc_spans_def split_windows_def doc_spans_loop_empty)
  from tok_positions_untrained[OF assms(2)] obtain x where "tok_positions cfg ex = Inr x" ..
  then show ?thesis using ds by (cases x) (simp add: transform_def)
qed

theorem transform_empty_document_witness:
  "all_doc_tokens cfg0 ex_impossible = []
   \<and> \<not> (is_training cfg0 \<and> \<not> is_impossible ex_impossible)
   \<and> doc_spans cfg0 ex_impossible = Some []
   \<and> transform float_score cfg0 ex_impossible = Some (Inr [])"
proof -
  have h: "all_doc_tokens cfg0 ex_impossible = []"
    "\<not> (is_training cfg0 \<and> \<not> is_impossible ex_impossible)"
    by (simp_all add: all_doc_tokens_def sub_tokenize_def ex_impossible_def)
  from transform_empty_document[OF h, of float_score] h show ?thesis by simp
qed

text \<open>
  C7 (as amended). The transform makes no configuration check. When
  \<open>max_tokens_for_doc < 1\<close> it raises only what the span alignment raises; otherwise
  it returns the empty feature list when the document has no sub-token, and its window
  loop never ends when the document has one: no error is reported, and no feature is
  built from a zero-length or negative window.
\<close>

theorem transform_small_max_seq_length:
  assumes "max_tokens_for_doc cfg ex < 1"
  shows "transform sc cfg ex =
           (case tok_positions cfg ex of
              Inl e \<Rightarrow> Some (Inl e)
            | Inr x \<Rightarrow> if all_doc_tokens cfg ex = [] then Some (Inr []) else None)"
proof (cases "tok_positions cfg ex")
  case (Inl e)
  then show ?thesis by (simp add: transform_def)
next
  case (Inr x)
  obtain ts te where x: "x = (ts, te)" by (cases x)
  show ?thesis
  proof (cases "all_doc_tokens cfg ex = []")
    case True
    then have "doc_spans cfg ex = Some []"
      by (simp add: doc_spans_def split_windows_def doc_spans_loop_empty)
    then show ?thesis using Inr True x by (simp add: transform_def)
  next
    case False
    then have "0 < int (length (all_doc_tokens cfg ex))" by simp
    from doc_spans_loop_diverges[OF assms this] have "doc_spans cfg ex = None"
      by (simp add: doc_spans_def split_windows_def)
    then show ?thesis using Inr False x by (simp add: transform_def)
  qed
qed

theorem transform_small_max_seq_length_witness:
  "max_tokens_for_doc cfg7 ex_empty < 1
   \<and> transform float_score cfg7 ex_empty = Some (Inr [])"
proof -
  have h: "max_tokens_for_doc cfg7 ex_empty < 1" by code_simp
  have t: "tok_positions cfg7 ex_empty = Inr (None, None)" by code_simp
  have a: "all_doc_tokens cfg7 ex_empty = []" by code_simp
  from transform_small_max_seq_length[OF h, of float_score] t a h show ?thesis by simp
qed

text \<open>
  The claim as stated fails: for \<open>cfg7\<close> and \<open>ex7\<close>, \<open>max_tokens_for_doc\<close> is \<open>-1\<close>
  and the transform reports nothing: the window loop appends the window \<open>(0, -1)\<close>,
  moves the start offset to \<open>-1\<close> and goes on for ever.
\<close>

theorem transform_small_max_seq_length_counterexample:
  "max_tokens_for_doc cfg7 ex7 = - 1 \<and> transform float_score cfg7 ex7 = None"
proof -
  have m: "max_tokens_for_doc cfg7 ex7 = - 1" by code_simp
  have t: "tok_positions cfg7 ex7 = Inr (None, None)" by code_simp
  have a: "all_doc_tokens cfg7 ex7 = [[97]]" by code_simp
  have "doc_spans_loop 1 (- 1) (doc_stride cfg7) 0 [] = None"
    by (rule doc_spans_loop_diverges) simp_all
  then have "doc_spans cfg7 ex7 = None"
    by (simp add: doc_spans_def split_windows_def m a)
  then show ?thesis using m t by (simp add: transform_def)
qed

subsection \<open>The aligned span of a well-formed example\<close>

lemma sub_token_loop_eq:
  "sub_token_loop i sub st = (fst st @ replicate (length sub) i, snd st @ sub)"
  by (induction sub arbitrary: st) (simp_all add: replicate_app_Cons_same)

lemma doc_token_loop_eq:
  "doc_token_loop tk i ws (t2o, o2t, adt) =
     (t2o @ concat (map (\<lambda>jw. replicate (length (tk (snd jw))) (fst jw)) (enumerate i ws)),
      o2t @ map (\<lambda>k. length adt + length (concat (map tk (take k ws)))) [0..<length ws],
      adt @ concat (map tk ws))"
proof (induction ws arbitrary: i t2o o2t adt)
  case Nil
  then show ?case by simp
next
  case (Cons w ws)
  have u: "[0..<length (w # ws)] = 0 # map Suc [0..<length ws]"
    unfolding map_Suc_upt by (simp add: upt_conv_Cons del: upt_Suc)
  show ?case
    unfolding u by (simp add: sub_token_loop_eq Cons.IH Let_def o_def add.assoc)
qed

lemma all_doc_tokens_eq:
  "all_doc_tokens cfg ex = concat (map (tokenize (tokenizer cfg)) (doc_tokens ex))"
  by (simp add: all_doc_tokens_def sub_tokenize_def doc_token_loop_eq)

lemma orig_to_tok_index_eq:
  "orig_to_tok_index cfg ex =
     map (\<lambda>k. length (concat (map (tokenize (tokenizer cfg)) (take k (doc_tokens ex)))))
       [0..<length (doc_tokens ex)]"
  by (simp add: orig_to_tok_index_def sub_tokenize_def doc_token_loop_eq)

lemma length_concat_take_mono:
  "j \<le> k \<Longrightarrow> length (concat (map f (take j xs))) \<le> length (concat (map f (take k xs)))"
proof -
  assume "j \<le> k"
  then have "take k xs = take j xs @ take (k - j) (drop j xs)"
    by (metis le_add_diff_inverse take_add)
  then show ?thesis by simp
qed

text \<open>
  When the aligned span is ordered: for an answerable training example whose word-level
  span is in range and ordered, and whose first answer word gets at least one
  sub-token, the span alignment raises nothing and returns an ordered span.
\<close>

lemma tok_positions_ordered:
  assumes "is_training cfg" "\<not> is_impossible ex"
    and "start_position ex = Some s" "end_position ex = Some e" "orig_answer_text ex = Some t"
    and "0 \<le> s" "s \<le> e" "e < int (length (doc_tokens ex))"
    and "tokenize (tokenizer cfg) (doc_tokens ex ! nat s) \<noteq> []"
  shows "\<exists>a b. tok_positions cfg ex = Inr (Some a, Some b) \<and> a \<le> b"
proof -
  define tk where "tk = tokenize (tokenizer cfg)"
  define ws where "ws = doc_tokens ex"
  define cum where "cum k = length (concat (map tk (take k ws)))" for k
  have o2t: "orig_to_tok_index cfg ex = map cum [0..<length ws]"
    by (simp add: orig_to_tok_index_eq cum_def tk_def ws_def)
  have n: "length (all_doc_tokens cfg ex) = cum (length ws)"
    by (simp add: all_doc_tokens_eq cum_def tk_def ws_def)
  have sl: "nat s < length ws" "nat e < length ws" "nat s \<le> nat e"
    using assms(6-8) by (simp_all add: ws_def)
  have ps: "py_index (orig_to_tok_index cfg ex) s = Inr (cum (nat s))"
    using sl assms(6) by (simp add: py_index_def o2t)
  define te where "te = int (cum (Suc (nat e))) - 1"
  have pe: "(if e < int (length (doc_tokens ex)) - 1
             then (case py_index (orig_to_tok_index cfg ex) (e + 1) of
                     Inl x \<Rightarrow> Inl x | Inr v \<Rightarrow> Inr (int v - 1))
             else Inr (int (length (all_doc_tokens cfg ex)) - 1)) = Inr te"
  proof (cases "e < int (length ws) - 1")
    case True
    then have "py_index (orig_to_tok_index cfg ex) (e + 1) = Inr (cum (nat (e + 1)))"
      using assms(6,7) by (simp add: py_index_def o2t)
    moreover have "nat (e + 1) = Suc (nat e)" using assms(6,7) by simp
    ultimately show ?thesis using True by (simp add: te_def ws_def)
  next
    case False
    then have "Suc (nat e) = length ws" using sl(2) by simp
    then show ?thesis using False by (simp add: te_def n ws_def)
  qed
  have "cum (Suc (nat s)) = cum (nat s) + length (tk (ws ! nat s))"
    using sl(1) by (simp add: cum_def take_Suc_conv_app_nth)
  moreover have "0 < length (tk (ws ! nat s))" using assms(9) by (simp add: tk_def ws_def)
  moreover have "cum (Suc (nat s)) \<le> cum (Suc (nat e))"
    unfolding cum_def using sl(3) by (intro length_concat_take_mono) simp
  ultimately have "cum (nat s) < cum (Suc (nat e))" by linarith
  then have le: "int (cum (nat s)) \<le> te" by (simp add: te_def)
  obtain a b where ab:
    "improve_answer_span (all_doc_tokens cfg ex) (int (cum (nat s))) te tk t = (a, b)"
    by (cases "improve_answer_span (all_doc_tokens cfg ex) (int (cum (nat s))) te tk t")
  from improve_answer_span_cases[OF ab] le have "a \<le> b" by auto
  moreover have "tok_positions cfg ex = Inr (Some a, Some b)"
    unfolding tok_positions_def using assms(1-5) ps pe ab by (simp add: tk_def)
  ultimately show ?thesis by blast
qed

section \<open>Properties of the example builder\<close>


lemma read_qa_example_id:
  "read_qa cfg dt c2w qa eid = Inr (Some ex) \<Longrightarrow> example_id ex = eid"
  by (auto simp: read_qa_def Let_def split: if_splits sum.splits)

lemma qa_loop_dense:
  "qa_loop cfg dt c2w qs st = Inr st' \<Longrightarrow> dense_ids st \<Longrightarrow> dense_ids st'"
proof (induction qs arbitrary: st)
  case Nil
  then show ?case by simp
next
  case (Cons qa qs)
  show ?case
  proof (cases "read_qa cfg dt c2w qa (snd st)")
    case (Inl e)
    with Cons.prems show ?thesis by simp
  next
    case (Inr r)
    show ?thesis
    proof (cases r)
      case None
      with Inr Cons show ?thesis by simp
    next
      case (Some ex)
      with Inr Cons.prems(1) have
        l: "qa_loop cfg dt c2w qs (fst st @ [ex], snd st + 1) = Inr st'" by simp
      have "example_id ex = snd st" using Inr Some by (simp add: read_qa_example_id)
      with Cons.prems(2) have "dense_ids (fst st @ [ex], snd st + 1)"
        by (simp add: dense_ids_def)
      from Cons.IH[OF l this] show ?thesis .
    qed
  qed
qed

lemma paragraph_loop_dense:
  "paragraph_loop cfg ps st = Inr st' \<Longrightarrow> dense_ids st \<Longrightarrow> dense_ids st'"
proof (induction ps arbitrary: st)
  case Nil
  then show ?case by simp
next
  case (Cons p ps)
  from Cons.prems(1) obtain dt c2w prev st1 where
    "qa_loop cfg dt c2w (qas p) st = Inr st1" "paragraph_loop cfg ps st1 = Inr st'"
    by (auto split: sum.splits prod.splits)
  with Cons.IH Cons.prems(2) qa_loop_dense show ?case by blast
qed

lemma entry_loop_dense:
  "entry_loop cfg es st = Inr st' \<Longrightarrow> dense_ids st \<Longrightarrow> dense_ids st'"
proof (induction es arbitrary: st)
  case Nil
  then show ?case by simp
next
  case (Cons e es)
  from Cons.prems(1) obtain st1 where
    "paragraph_loop cfg e st = Inr st1" "entry_loop cfg es st1 = Inr st'"
    by (auto split: sum.splits)
  with Cons.IH Cons.prems(2) paragraph_loop_dense show ?case by blast
qed

text \<open>
  C6 (as amended). \<open>example_id\<close> is a dense counter over the examples that are kept, in
  encounter order: the counter does not move for a question dropped by the
  answer-recoverability check, and the example at index \<open>i\<close> of the returned list has
  \<open>example_id = i\<close>.
\<close>

theorem read_example_id_dense:
  assumes "read cfg input_data = Inr exs" "i < length exs"
  shows "example_id (exs ! i) = int i"
proof -
  from assms(1) obtain st where st: "entry_loop cfg input_data ([], 0) = Inr st" "exs = fst st"
    by (auto simp: read_def split: sum.splits)
  have "dense_ids ([], 0)" by (simp add: dense_ids_def)
  from entry_loop_dense[OF st(1) this] have "map example_id exs = map int [0..<length exs]"
    by (simp add: dense_ids_def st(2))
  then have "map example_id exs ! i = map int [0..<length exs] ! i" by simp
  then show ?thesis using assms(2) by simp
qed


lemma read_data6: "read reader0 data6 = Inr [ex6]"
  by (simp add: reader_defs reader0_def data6_def qa6a_def qa6b_def ex6_def)

theorem read_example_id_dense_witness:
  "read reader0 data6 = Inr [ex6] \<and> (0::nat) < length [ex6] \<and> example_id ([ex6] ! 0) = int 0"
proof -
  have h: "(0::nat) < length [ex6]" by simp
  from read_example_id_dense[OF read_data6 h] read_data6 h show ?thesis by simp
qed

text \<open>
  The claim as stated fails: of the two questions of \<open>data6\<close> the first is dropped,
  and the example kept for the second one, at position 1 among the input question
  records, has \<open>example_id = 0\<close>.
\<close>

theorem read_example_id_dense_counterexample:
  "read reader0 data6 = Inr [ex6]
   \<and> concat (map qas (concat data6)) ! 1 = qa6b
   \<and> qas_id ex6 = qa_id qa6b
   \<and> example_id ex6 \<noteq> 1"
proof -
  have "read reader0 data6 = Inr [ex6]"
    by (simp add: reader_defs reader0_def data6_def qa6a_def qa6b_def ex6_def)
  then show ?thesis by (simp add: data6_def ex6_def qa6b_def)
qed

lemma segment_loop_inv:
  assumes "\<not> prev \<longrightarrow> dt \<noteq> []"
  shows "\<exists>dt' ks prev'. segment_loop cs (dt, c2w, prev) = Inr (dt', c2w @ ks, prev')
           \<and> length ks = length cs \<and> length dt \<le> length dt'
           \<and> sorted ks
           \<and> (\<forall>k \<in> set ks. int (length dt) - 1 \<le> k \<and> k \<le> int (length dt') - 1)
           \<and> (\<forall>i < length cs. dt \<noteq> [] \<or> \<not> list_all is_whitespace (take (Suc i) cs)
                  \<longrightarrow> 0 \<le> ks ! i)"
  using assms
proof (induction cs arbitrary: dt c2w prev)
  case Nil
  then show ?case by simp
next
  case (Cons c cs)
  define dt1 where "dt1 = (if is_whitespace c then dt else if prev then dt @ [[c]]
                           else butlast dt @ [last dt @ [c]])"
  define prev1 where "prev1 = is_whitespace c"
  define k0 where "k0 = int (length dt1) - 1"
  have st: "segment_loop (c # cs) (dt, c2w, prev) = segment_loop cs (dt1, c2w @ [k0], prev1)"
    using Cons.prems by (auto simp: dt1_def prev1_def k0_def)
  have inv1: "\<not> prev1 \<longrightarrow> dt1 \<noteq> []" by (auto simp: dt1_def prev1_def)
  have len1: "length dt \<le> length dt1" "length dt1 \<le> length dt + 1"
    using Cons.prems by (auto simp: dt1_def)
  have ne1: "dt \<noteq> [] \<or> \<not> is_whitespace c \<Longrightarrow> dt1 \<noteq> []"
    by (auto simp: dt1_def)
  from Cons.IH[OF inv1, of "c2w @ [k0]"] obtain dt' ks prev' where
    r: "segment_loop cs (dt1, c2w @ [k0], prev1) = Inr (dt', (c2w @ [k0]) @ ks, prev')"
    and l: "length ks = length cs" "length dt1 \<le> length dt'"
    and s: "sorted ks"
    and b: "\<forall>k \<in> set ks. int (length dt1) - 1 \<le> k \<and> k \<le> int (length dt') - 1"
    and z: "\<forall>i < length cs. dt1 \<noteq> [] \<or> \<not> list_all is_whitespace (take (Suc i) cs)
                  \<longrightarrow> 0 \<le> ks ! i"
    by blast
  have 1: "segment_loop (c # cs) (dt, c2w, prev) = Inr (dt', c2w @ (k0 # ks), prev')"
    using st r by simp
  have 2: "length (k0 # ks) = length (c # cs)" "length dt \<le> length dt'"
    using l len1 by simp_all
  have 3: "sorted (k0 # ks)" using s b by (auto simp: k0_def)
  have 4: "\<forall>k \<in> set (k0 # ks). int (length dt) - 1 \<le> k \<and> k \<le> int (length dt') - 1"
    using b l len1 by (auto simp: k0_def)
  have 5: "\<forall>i < length (c # cs). dt \<noteq> [] \<or> \<not> list_all is_whitespace (take (Suc i) (c # cs))
                  \<longrightarrow> 0 \<le> (k0 # ks) ! i"
  proof (intro allI impI)
    fix i assume i: "i < length (c # cs)"
      and h: "dt \<noteq> [] \<or> \<not> list_all is_whitespace (take (Suc i) (c # cs))"
    show "0 \<le> (k0 # ks) ! i"
    proof (cases i)
      case 0
      with h have "dt1 \<noteq> []" using ne1 by auto
      then show ?thesis using 0 by (cases dt1) (auto simp: k0_def)
    next
      case (Suc j)
      with h have "dt1 \<noteq> [] \<or> \<not> list_all is_whitespace (take (Suc j) cs)"
        using ne1 by auto
      with z i Suc show ?thesis by simp
    qed
  qed
  show ?case using 1 2 3 4 5 by blast
qed


lemma segment_total: "\<exists>r. segment ctx = Inr r"
  using segment_loop_inv[of True "[]" ctx "[]"] unfolding segment_def by auto










end
